theory Spec2Isabelle
  imports Complex_Main "HOL-Library.Word" "HOL-Library.Sublist"
begin

section \<open>JavaScript strings\<close>

text \<open>
  A JavaScript string is a sequence of UTF-16 code units. String literals of the source
  are written \<open>js ''...''\<close>. \<open>is_ws\<close> is the set that \<^verbatim>\<open>String.prototype.trim\<close>
  strips (ECMAScript WhiteSpace and LineTerminator).
\<close>

type_synonym code_unit = "16 word"
type_synonym jsstring = "code_unit list"

definition js :: "string \<Rightarrow> jsstring" where
  "js s = map of_char s"

definition is_ws :: "code_unit \<Rightarrow> bool" where
  "is_ws u = (u \<in> {9, 10, 11, 12, 13, 32, 160, 5760, 8232, 8233, 8239, 8287, 12288, 65279}
              \<or> (8192 \<le> u \<and> u \<le> 8202))"

definition trim :: "jsstring \<Rightarrow> jsstring" where
  "trim s = rev (dropWhile is_ws (rev (dropWhile is_ws s)))"

text \<open>
  The first occurrence of \<open>pat\<close> in \<open>s\<close>, searching from the left: the text before it and
  the text after it; \<open>None\<close> if \<open>pat\<close> does not occur.
\<close>

fun cut_first :: "'a list \<Rightarrow> 'a list \<Rightarrow> ('a list \<times> 'a list) option" where
  "cut_first pat [] = (if pat = [] then Some ([], []) else None)"
| "cut_first pat (c # cs) =
     (if prefix pat (c # cs) then Some ([], drop (length pat) (c # cs))
      else (case cut_first pat cs of
              None \<Rightarrow> None
            | Some (pre, post) \<Rightarrow> Some (c # pre, post)))"

text \<open>What is cut is shorter than \<open>s\<close>; the splitting below terminates by this.\<close>

lemma cut_first_decomp:
  "cut_first pat s = Some (pre, post) \<Longrightarrow> s = pre @ pat @ post"
proof (induction s arbitrary: pre)
  case Nil
  then show ?case by (simp split: if_splits)
next
  case (Cons c cs)
  show ?case
  proof (cases "prefix pat (c # cs)")
    case True
    with Cons.prems have "pre = []" "post = drop (length pat) (c # cs)" by simp_all
    moreover from True have "c # cs = pat @ drop (length pat) (c # cs)"
      by (metis append_eq_conv_conj prefixE)
    ultimately show ?thesis by simp
  next
    case False
    with Cons.prems obtain pre' where "cut_first pat cs = Some (pre', post)" "pre = c # pre'"
      by (auto split: option.splits)
    with Cons.IH show ?thesis by simp
  qed
qed

text \<open>
  \<^verbatim>\<open>s.split(sep)\<close> with a string separator: the pieces between the occurrences of \<open>sep\<close>,
  found from left to right without overlap; the code units one by one if \<open>sep\<close> is empty.
\<close>

function split_js :: "'a list \<Rightarrow> 'a list \<Rightarrow> 'a list list" where
  "split_js sep s =
     (if sep = [] then map (\<lambda>c. [c]) s
      else (case cut_first sep s of
              None \<Rightarrow> [s]
            | Some (pre, post) \<Rightarrow> pre # split_js sep post))"
  by pat_completeness auto
termination
proof (relation "measure (\<lambda>(sep, s). length s)", goal_cases)
  case 1
  show ?case by simp
next
  case (2 sep s x2 pre post)
  then have "s = pre @ sep @ post" by (simp add: cut_first_decomp)
  with 2 show ?case by simp
qed

declare split_js.simps [simp del]

section \<open>Response parser (askHandler, extraction of scratchpad and final answer)\<close>

definition OPEN_TAG :: jsstring where
  "OPEN_TAG = js ''<scratchpad>''"

definition CLOSE_TAG :: jsstring where
  "CLOSE_TAG = js ''</scratchpad>''"

definition MARKER :: jsstring where
  "MARKER = js ''###''"

definition NO_SCRATCHPAD :: jsstring where
  "NO_SCRATCHPAD = js ''No scratchpad content found.''"

text \<open>
  \<^verbatim>\<open>responseContent.match(/<scratchpad>([\s\S]*?)<\/scratchpad>/)\<close>: the leftmost opening
  tag and, the quantifier being lazy, the nearest closing tag after it. The result holds
  the text before the match, the captured group and the text after the match; the match
  itself (\<^verbatim>\<open>scratchpadMatch[0]\<close>) is the group with the two tags around it.
\<close>

definition scratchpadMatch :: "jsstring \<Rightarrow> (jsstring \<times> jsstring \<times> jsstring) option" where
  "scratchpadMatch responseContent =
     (case cut_first OPEN_TAG responseContent of
        None \<Rightarrow> None
      | Some (pre, rest) \<Rightarrow>
          (case cut_first CLOSE_TAG rest of
             None \<Rightarrow> None
           | Some (body, post) \<Rightarrow> Some (pre, body, post)))"

text \<open>\<^verbatim>\<open>responseContent.replace(/<scratchpad>([\s\S]*?)<\/scratchpad>/, '')\<close>: no \<^verbatim>\<open>g\<close>
  flag, so only the first match is removed.\<close>

definition remove_scratchpad :: "jsstring \<Rightarrow> jsstring" where
  "remove_scratchpad responseContent =
     (case scratchpadMatch responseContent of
        None \<Rightarrow> responseContent
      | Some (pre, body, post) \<Rightarrow> pre @ post)"

text \<open>\<^verbatim>\<open>xs?.[i]\<close>: \<^verbatim>\<open>undefined\<close> out of range.\<close>

definition index_opt :: "'a list \<Rightarrow> nat \<Rightarrow> 'a option" where
  "index_opt xs i = (if i < length xs then Some (xs ! i) else None)"

text \<open>\<^verbatim>\<open>a || b\<close> on strings: \<^verbatim>\<open>undefined\<close> and the empty string are falsy.\<close>

definition or_else :: "jsstring option \<Rightarrow> jsstring \<Rightarrow> jsstring" where
  "or_else a b = (case a of None \<Rightarrow> b | Some s \<Rightarrow> if s = [] then b else s)"

text \<open>
  The extraction of scratchpad and final answer in \<^verbatim>\<open>askHandler\<close> (the specification's
  response parser), applied to a non-empty \<^verbatim>\<open>responseContent\<close>.
\<close>

record parsed =
  answer :: jsstring
  scratchpad :: jsstring

definition parse_response :: "jsstring \<Rightarrow> parsed" where
  "parse_response responseContent =
     (let scratchpad = (case scratchpadMatch responseContent of
                          Some (pre, body, post) \<Rightarrow> OPEN_TAG @ body @ CLOSE_TAG
                        | None \<Rightarrow> NO_SCRATCHPAD);
          finalAnswer = or_else (map_option trim (index_opt (split_js MARKER responseContent) 1))
                                (trim (remove_scratchpad responseContent))
      in \<lparr>answer = finalAnswer, scratchpad = scratchpad\<rparr>)"

section \<open>Requests, responses and the outside world\<close>

text \<open>
  A response is what the handler hands to \<^verbatim>\<open>res\<close>: the status, the headers it set and the
  body: the object given to \<^verbatim>\<open>res.json\<close> (its fields in the order of the source), the
  text given to \<^verbatim>\<open>res.end\<close> or the buffer given to \<^verbatim>\<open>res.send\<close>.
\<close>

datatype json = JStr jsstring | JNum nat

datatype body = Json "(string \<times> json) list" | Text jsstring | Bytes "8 word list"

record response =
  status :: nat
  headers :: "(string \<times> jsstring list) list"
  resp_body :: body

definition json_response :: "nat \<Rightarrow> (string \<times> json) list \<Rightarrow> response" where
  "json_response st obj = \<lparr>status = st, headers = [], resp_body = Json obj\<rparr>"

definition method_not_allowed :: "jsstring \<Rightarrow> jsstring list \<Rightarrow> response" where
  "method_not_allowed m allowed =
     \<lparr>status = 405, headers = [(''Allow'', allowed)],
      resp_body = Text (js ''Method '' @ m @ js '' Not Allowed'')\<rparr>"

text \<open>The fields of a JSON body by name; any other body has none.\<close>

definition field :: "response \<Rightarrow> string \<Rightarrow> json option" where
  "field r name = (case resp_body r of Json obj \<Rightarrow> map_of obj name | _ \<Rightarrow> None)"

text \<open>A thrown or rejected JavaScript error: its \<^verbatim>\<open>code\<close> (if any) and its \<^verbatim>\<open>message\<close>.\<close>

datatype js_error = JsError (code: "jsstring option") (message: jsstring)

type_synonym path = jsstring
type_synonym embedding = "real list"

record document =
  pageContent :: jsstring
  loc_pageNumber :: "nat option"

record vector_record =
  vector_id :: jsstring
  vector_values :: embedding
  metadata_text :: jsstring
  metadata_source :: jsstring
  metadata_pageNumber :: nat

record match =
  match_text :: "jsstring option"
  score :: real

record query_response =
  matches :: "match list option"

text \<open>
  The calls to external services, in the order the handler makes them, the files on the
  local disk and the batches the vector index has accepted.
\<close>

datatype call =
    Transcribe path
  | EmbedQuery jsstring
  | IndexQuery embedding
  | ChatCompletion jsstring jsstring
  | LoadPdf path
  | Upsert "vector_record list"

record world =
  files :: "path set"
  index_batches :: "vector_record list list"
  calls :: "call list"

definition called :: "call \<Rightarrow> world \<Rightarrow> world" where
  "called c w = w\<lparr>calls := calls w @ [c]\<rparr>"

text \<open>\<^verbatim>\<open>if (p && fs.existsSync(p)) { fs.unlinkSync(p); }\<close>\<close>

definition unlink_if_exists :: "path option \<Rightarrow> world \<Rightarrow> world" where
  "unlink_if_exists p w =
     (case p of
        None \<Rightarrow> w
      | Some f \<Rightarrow> if f \<noteq> [] \<and> f \<in> files w then w\<lparr>files := files w - {f}\<rparr> else w)"

text \<open>\<^verbatim>\<open>!v\<close> for an environment variable: unset or empty.\<close>

definition missing :: "jsstring option \<Rightarrow> bool" where
  "missing v = (case v of None \<Rightarrow> True | Some s \<Rightarrow> s = [])"

text \<open>\<^verbatim>\<open>xs.join(sep)\<close> on an array of strings.\<close>

fun join :: "jsstring \<Rightarrow> jsstring list \<Rightarrow> jsstring" where
  "join sep [] = []"
| "join sep [x] = x"
| "join sep (x # y # ys) = x @ sep @ join sep (y # ys)"

text \<open>The decimal digits of a number, as a template literal renders a loop index.\<close>

fun show_nat :: "nat \<Rightarrow> jsstring" where
  "show_nat n = (if n < 10 then [of_nat (48 + n)]
                 else show_nat (n div 10) @ [of_nat (48 + n mod 10)])"

declare show_nat.simps [simp del]

section \<open>The query handler (askHandler)\<close>

record form_body =
  question :: "jsstring option"

text \<open>
  What \<^verbatim>\<open>runMiddleware(req, res, upload.single('audio'))\<close> leaves behind: it rejects with
  an error, or it resolves with \<^verbatim>\<open>req.file\<close> (the path of the temporary file multer wrote)
  and \<^verbatim>\<open>req.body\<close> (undefined when the request was not multipart, since body parsing is
  disabled for the route).
\<close>

record ask_request =
  req_method :: jsstring
  upload_error :: "js_error option"
  audioFile :: "path option"
  req_body :: "form_body option"

text \<open>
  The environment of a handler: the variables of \<^verbatim>\<open>process.env\<close> it reads and the external
  services it calls, each as the function from the arguments of a call to its outcome
  (\<open>Inl\<close> an error raised, \<open>Inr\<close> the value returned). Both handlers read the same keys and
  embed text with the same model.
\<close>

record services =
  PINECONE_API_KEY :: "jsstring option"
  PINECONE_ENVIRONMENT :: "jsstring option"
  OPENAI_API_KEY :: "jsstring option"
  embedQuery :: "jsstring \<Rightarrow> js_error + embedding"

record ask_env = services +
  transcriptions_create :: "path \<Rightarrow> js_error + jsstring"
  index_query :: "embedding \<Rightarrow> js_error + query_response"
  chat_completions_create :: "jsstring \<Rightarrow> jsstring \<Rightarrow> js_error + jsstring option"

definition NL :: jsstring where
  "NL = [10]"

definition SEPARATOR :: jsstring where
  "SEPARATOR = NL @ NL @ js ''---'' @ NL @ NL"

definition NO_CONTEXT :: jsstring where
  "NO_CONTEXT = js ''No relevant context found.''"

definition CONTEXT_ERROR :: jsstring where
  "CONTEXT_ERROR = js ''Error retrieving context from knowledge base.''"

text \<open>
  \<^verbatim>\<open>matches?.map((match) => match.metadata?.text).filter(Boolean).join(sep) || NO_CONTEXT\<close>
\<close>

definition truthy_texts :: "match list \<Rightarrow> jsstring list" where
  "truthy_texts ms = filter (\<lambda>t. t \<noteq> []) (List.map_filter match_text ms)"

definition format_context :: "query_response \<Rightarrow> jsstring" where
  "format_context queryResponse =
     or_else (map_option (\<lambda>ms. join SEPARATOR (truthy_texts ms)) (matches queryResponse))
             NO_CONTEXT"

text \<open>
  The specification's order of a retrieval result: the matches in descending order of
  score (a stable sort). The handler has no such step; the definition serves to compare.
\<close>

definition by_descending_score :: "match list \<Rightarrow> match list" where
  "by_descending_score ms = sort_key (\<lambda>m. - score m) ms"

text \<open>
  Step 2 of the handler: the \<^verbatim>\<open>try\<close> block around the retrieval and its \<^verbatim>\<open>catch\<close>. The
  result is the context and the external calls that were made.
\<close>

definition retrieve :: "ask_env \<Rightarrow> jsstring \<Rightarrow> jsstring \<times> call list" where
  "retrieve env queryText =
     (case embedQuery env queryText of
        Inl pineconeError \<Rightarrow> (CONTEXT_ERROR, [EmbedQuery queryText])
      | Inr queryEmbedding \<Rightarrow>
          (case index_query env queryEmbedding of
             Inl pineconeError \<Rightarrow>
               (CONTEXT_ERROR, [EmbedQuery queryText, IndexQuery queryEmbedding])
           | Inr queryResponse \<Rightarrow>
               (format_context queryResponse, [EmbedQuery queryText, IndexQuery queryEmbedding])))"

definition systemPrompt :: "jsstring \<Rightarrow> jsstring" where
  "systemPrompt context =
     js ''You are a finance professor.'' @ NL
     @ js ''Think step-by-step in <scratchpad>...</scratchpad> then after ### give the final answer.'' @ NL
     @ js ''Use the following context to answer the question:'' @ NL
     @ NL
     @ js ''Context:'' @ NL
     @ context"

text \<open>
  Step 3: the \<^verbatim>\<open>try\<close> block around the completion call, given what the call returned. An
  empty or missing content throws inside the block and is caught by its own \<^verbatim>\<open>catch\<close>.
\<close>

definition generation_failed :: "js_error \<Rightarrow> response" where
  "generation_failed gptError =
     json_response 500
       [(''error'', JStr (js ''Failed to get answer from AI model.'')),
        (''details'', JStr (message gptError))]"

definition generate :: "ask_env \<Rightarrow> jsstring \<Rightarrow> jsstring \<Rightarrow> jsstring \<Rightarrow> response" where
  "generate env transcription queryText context =
     (case chat_completions_create env (systemPrompt context) queryText of
        Inl gptError \<Rightarrow> generation_failed gptError
      | Inr content \<Rightarrow>
          (case content of
             None \<Rightarrow> generation_failed (JsError None (js ''No response content from GPT-4o''))
           | Some responseContent \<Rightarrow>
               if responseContent = []
               then generation_failed (JsError None (js ''No response content from GPT-4o''))
               else (let p = parse_response responseContent
                     in json_response 200
                          [(''answer'', JStr (answer p)),
                           (''scratchpad'', JStr (scratchpad p)),
                           (''transcription'', JStr transcription)])))"

text \<open>The outer \<^verbatim>\<open>catch\<close> of the handler.\<close>

definition ask_catch :: "path option \<Rightarrow> js_error \<Rightarrow> world \<Rightarrow> response \<times> world" where
  "ask_catch audioFilePath error w =
     (let w1 = unlink_if_exists audioFilePath w in
      if code error = Some (js ''LIMIT_FILE_SIZE'')
      then (json_response 400 [(''error'', JStr (js ''Audio file size limit exceeded.''))], w1)
      else (json_response 500
              [(''error'', JStr (js ''Failed to process the request.'')),
               (''details'', JStr (or_else (Some (message error)) (js ''Unknown error'')))], w1))"

definition askHandler :: "ask_env \<Rightarrow> ask_request \<Rightarrow> world \<Rightarrow> response \<times> world" where
  "askHandler env req w =
     (if req_method req \<noteq> js ''POST'' then (method_not_allowed (req_method req) [js ''POST''], w)
      else case upload_error req of
        Some error \<Rightarrow> ask_catch None error w
      | None \<Rightarrow>
      (case req_body req of
        None \<Rightarrow>
          ask_catch None
            (JsError None (js ''Cannot read properties of undefined (reading 'question')'')) w
      | Some form \<Rightarrow>
      (case audioFile req of
        None \<Rightarrow> (json_response 400 [(''error'', JStr (js ''No audio file uploaded.''))], w)
      | Some audioFilePath \<Rightarrow>
          if missing (PINECONE_API_KEY env) \<or> missing (PINECONE_ENVIRONMENT env)
             \<or> missing (OPENAI_API_KEY env)
          then (json_response 500
                  [(''error'', JStr (js ''Server configuration error: Missing API keys.''))], w)
          else
            (let w1 = called (Transcribe audioFilePath) w in
             case transcriptions_create env audioFilePath of
               Inl transcriptionError \<Rightarrow>
                 (json_response 500
                    [(''error'', JStr (js ''Failed to transcribe audio.'')),
                     (''details'', JStr (message transcriptionError))], w1)
             | Inr transcription \<Rightarrow>
                 (let w2 = unlink_if_exists (Some audioFilePath) w1;
                      queryText = or_else (question form) transcription
                  in if queryText = []
                     then (json_response 400
                             [(''error'', JStr (js ''No query provided (either question text or audio transcription).''))], w2)
                     else (let (context, retrieval_calls) = retrieve env queryText;
                               w3 = w2\<lparr>calls := calls w2 @ retrieval_calls\<rparr>;
                               w4 = called (ChatCompletion (systemPrompt context) queryText) w3
                           in (generate env transcription queryText context, w4)))))))"

text \<open>The request passes every check before step 1 (the transcription).\<close>

definition reaches_transcription :: "ask_env \<Rightarrow> ask_request \<Rightarrow> form_body \<Rightarrow> path \<Rightarrow> bool" where
  "reaches_transcription env req form p \<longleftrightarrow>
     req_method req = js ''POST'' \<and> upload_error req = None \<and> req_body req = Some form
     \<and> audioFile req = Some p
     \<and> \<not> missing (PINECONE_API_KEY env) \<and> \<not> missing (PINECONE_ENVIRONMENT env)
     \<and> \<not> missing (OPENAI_API_KEY env)"

section \<open>The ingestion handler (uploadHandler)\<close>

record uploaded_file =
  file_path :: path
  originalname :: jsstring

text \<open>
  What \<^verbatim>\<open>runMiddleware(req, res, upload.single('file'))\<close> leaves behind: it rejects with an
  error (file too large, not a PDF), or it resolves with \<^verbatim>\<open>req.file\<close>, if a file was sent.
\<close>

record upload_request =
  upload_method :: jsstring
  multer_error :: "js_error option"
  uploadedFile :: "uploaded_file option"

text \<open>
  \<^verbatim>\<open>loader.load()\<close> and \<^verbatim>\<open>textSplitter.splitDocuments(docs)\<close> are library calls; \<^verbatim>\<open>index.upsert\<close>
  is given the batches the index holds already and the new batch, and answers with an
  error or accepts the batch.
\<close>

record upload_env = services +
  loader_load :: "path \<Rightarrow> js_error + document list"
  splitDocuments :: "document list \<Rightarrow> js_error + document list"
  index_upsert :: "vector_record list list \<Rightarrow> vector_record list \<Rightarrow> js_error option"

definition batchSize :: nat where
  "batchSize = 100"

text \<open>The record pushed for chunk \<open>i\<close>: \<^verbatim>\<open>pageNumber: chunk.metadata.loc?.pageNumber || 0\<close>.\<close>

definition vector_of :: "jsstring \<Rightarrow> nat \<Rightarrow> document \<Rightarrow> embedding \<Rightarrow> vector_record" where
  "vector_of fileName i chunk embedding =
     \<lparr>vector_id = fileName @ js ''-chunk-'' @ show_nat i,
      vector_values = embedding,
      metadata_text = pageContent chunk,
      metadata_source = fileName,
      metadata_pageNumber = (case loc_pageNumber chunk of None \<Rightarrow> 0 | Some n \<Rightarrow> n)\<rparr>"

text \<open>
  The embedding loop, from index \<open>i\<close> on, with the vectors pushed so far: the first failing
  call leaves the loop through the \<^verbatim>\<open>catch\<close>. The result comes with the calls made.
\<close>

fun embed_chunks ::
  "upload_env \<Rightarrow> jsstring \<Rightarrow> nat \<Rightarrow> document list \<Rightarrow> vector_record list
    \<Rightarrow> (js_error + vector_record list) \<times> call list" where
  "embed_chunks env fileName i [] vectors = (Inr vectors, [])"
| "embed_chunks env fileName i (chunk # rest) vectors =
     (case embedQuery env (pageContent chunk) of
        Inl embeddingError \<Rightarrow> (Inl embeddingError, [EmbedQuery (pageContent chunk)])
      | Inr embedding \<Rightarrow>
          (let (r, cs) = embed_chunks env fileName (i + 1) rest
                           (vectors @ [vector_of fileName i chunk embedding])
           in (r, EmbedQuery (pageContent chunk) # cs)))"

text \<open>
  The upsert loop \<^verbatim>\<open>for (let i = 0; i < vectors.length; i += batchSize)\<close>, from \<open>i\<close> on: the
  outcome, the batches the index holds afterwards and the calls made.
\<close>

function upsert_batches ::
  "upload_env \<Rightarrow> vector_record list \<Rightarrow> nat \<Rightarrow> vector_record list list
    \<Rightarrow> js_error option \<times> vector_record list list \<times> call list" where
  "upsert_batches env vectors i written =
     (if i < length vectors
      then (let batch = take batchSize (drop i vectors)
            in case index_upsert env written batch of
                 Some pineconeError \<Rightarrow> (Some pineconeError, written, [Upsert batch])
               | None \<Rightarrow>
                   (let (r, written', cs) =
                          upsert_batches env vectors (i + batchSize) (written @ [batch])
                    in (r, written', Upsert batch # cs)))
      else (None, written, []))"
  by pat_completeness auto
termination
  by (relation "measure (\<lambda>(env, vectors, i, written). length vectors - i)")
     (auto simp: batchSize_def)

declare upsert_batches.simps [simp del]

text \<open>The outer \<^verbatim>\<open>catch\<close> of the handler.\<close>

definition upload_catch :: "path option \<Rightarrow> js_error \<Rightarrow> world \<Rightarrow> response \<times> world" where
  "upload_catch filePath error w =
     (let w1 = unlink_if_exists filePath w in
      if code error = Some (js ''LIMIT_FILE_SIZE'')
      then (json_response 400 [(''error'', JStr (js ''File size limit exceeded.''))], w1)
      else if sublist (js ''Only PDF files are allowed'') (message error)
      then (json_response 400
              [(''error'', JStr (js ''Invalid file type. Only PDFs are allowed.''))], w1)
      else (json_response 500
              [(''error'', JStr (js ''Failed to process the uploaded file.'')),
               (''details'', JStr (or_else (Some (message error)) (js ''Unknown error'')))], w1))"

definition upload_succeeded :: "jsstring \<Rightarrow> vector_record list \<Rightarrow> response" where
  "upload_succeeded fileName vectors =
     json_response 200
       [(''message'', JStr (js ''File '' @ fileName @ js '' uploaded and processed successfully.'')),
        (''chunksEmbedded'', JNum (length vectors))]"

definition uploadHandler :: "upload_env \<Rightarrow> upload_request \<Rightarrow> world \<Rightarrow> response \<times> world" where
  "uploadHandler env req w =
     (if upload_method req \<noteq> js ''POST''
      then (method_not_allowed (upload_method req) [js ''POST''], w)
      else case multer_error req of
        Some error \<Rightarrow> upload_catch None error w
      | None \<Rightarrow>
      (case uploadedFile req of
        None \<Rightarrow> (json_response 400 [(''error'', JStr (js ''No file uploaded.''))], w)
      | Some file \<Rightarrow>
          (let filePath = file_path file; fileName = originalname file in
           if missing (PINECONE_API_KEY env) \<or> missing (PINECONE_ENVIRONMENT env)
              \<or> missing (OPENAI_API_KEY env)
           then (json_response 500
                   [(''error'', JStr (js ''Server configuration error: Missing API keys.''))], w)
           else
             (let w1 = called (LoadPdf filePath) w in
              case loader_load env filePath of
                Inl pdfLoadError \<Rightarrow>
                  (json_response 500
                     [(''error'', JStr (js ''Could not process PDF: '' @ fileName)),
                      (''details'', JStr (message pdfLoadError))], w1)
              | Inr docs \<Rightarrow>
                  if docs = []
                  then (json_response 500
                          [(''error'', JStr (js ''Could not extract content from PDF: '' @ fileName))],
                        w1)
                  else
                    (case splitDocuments env docs of
                       Inl error \<Rightarrow> upload_catch (Some filePath) error w1
                     | Inr chunks \<Rightarrow>
                         (let (embedded, embed_calls) = embed_chunks env fileName 0 chunks [];
                              w2 = w1\<lparr>calls := calls w1 @ embed_calls\<rparr>
                          in case embedded of
                               Inl embeddingError \<Rightarrow>
                                 (json_response 500
                                    [(''error'', JStr (js ''Failed to generate embeddings.'')),
                                     (''details'', JStr (message embeddingError))], w2)
                             | Inr vectors \<Rightarrow>
                                 if 0 < length vectors
                                 then
                                   (let (failed, written, upsert_calls) =
                                          upsert_batches env vectors 0 (index_batches w2);
                                        w3 = w2\<lparr>index_batches := written,
                                                calls := calls w2 @ upsert_calls\<rparr>
                                    in case failed of
                                         Some pineconeError \<Rightarrow>
                                           (json_response 500
                                              [(''error'', JStr (js ''Failed to save embeddings to database.'')),
                                               (''details'', JStr (message pineconeError))], w3)
                                       | None \<Rightarrow> (upload_succeeded fileName vectors, w3))
                                 else (upload_succeeded fileName vectors, w2)))))))"

text \<open>The request passes every check before the embedding loop, with these chunks.\<close>

definition reaches_embedding ::
  "upload_env \<Rightarrow> upload_request \<Rightarrow> uploaded_file \<Rightarrow> document list \<Rightarrow> bool" where
  "reaches_embedding env req file chunks \<longleftrightarrow>
     upload_method req = js ''POST'' \<and> multer_error req = None \<and> uploadedFile req = Some file
     \<and> \<not> missing (PINECONE_API_KEY env) \<and> \<not> missing (PINECONE_ENVIRONMENT env)
     \<and> \<not> missing (OPENAI_API_KEY env)
     \<and> (\<exists>docs. loader_load env (file_path file) = Inr docs \<and> docs \<noteq> []
                \<and> splitDocuments env docs = Inr chunks)"

section \<open>The speech handler (ttsHandler)\<close>

record tts_form =
  text_field :: "json option"

text \<open>
  The request as the handler reads it: \<^verbatim>\<open>req.body\<close> (which may be undefined) and its \<^verbatim>\<open>text\<close>.
  The environment: the API key, \<^verbatim>\<open>os.tmpdir()\<close>, \<^verbatim>\<open>Date.now()\<close>, the synthesis call, and
  whether writing the file or sending the response throws.
\<close>

record tts_request =
  tts_method :: jsstring
  tts_body :: "tts_form option"

record tts_env =
  ELEVENLABS_API_KEY :: "jsstring option"
  tmpdir :: path
  now :: nat
  textToSpeech :: "jsstring \<Rightarrow> js_error + 8 word list"
  write_error :: "js_error option"
  send_error :: "js_error option"

text \<open>The headers set with \<^verbatim>\<open>res.setHeader\<close> before the audio is sent.\<close>

definition audio_headers :: "(string \<times> jsstring list) list" where
  "audio_headers =
     [(''Content-Type'', [js ''audio/mpeg'']),
      (''Content-Disposition'', [js ''attachment; filename=\"speech.mp3\"''])]"

text \<open>
  The inner \<^verbatim>\<open>catch\<close>, with the headers that were set before the error was thrown: they
  stay on the response.
\<close>

definition tts_inner_catch ::
  "(string \<times> jsstring list) list \<Rightarrow> path \<Rightarrow> js_error \<Rightarrow> world \<Rightarrow> response \<times> world" where
  "tts_inner_catch headers_set tempFilePath ttsError w =
     ((json_response 500
         [(''error'', JStr (js ''Failed to generate speech from text.'')),
          (''details'', JStr (or_else (Some (message ttsError)) (js ''Unknown TTS error'')))])
        \<lparr>headers := headers_set\<rparr>,
      unlink_if_exists (Some tempFilePath) w)"

definition tts_catch :: "path option \<Rightarrow> js_error \<Rightarrow> world \<Rightarrow> response \<times> world" where
  "tts_catch tempFilePath error w =
     (json_response 500
        [(''error'', JStr (js ''Failed to process the request.'')),
         (''details'', JStr (or_else (Some (message error)) (js ''Unknown error'')))],
      unlink_if_exists tempFilePath w)"

definition synthesize :: "tts_env \<Rightarrow> jsstring \<Rightarrow> world \<Rightarrow> response \<times> world" where
  "synthesize env textInput w =
     (if missing (ELEVENLABS_API_KEY env)
      then (json_response 500
              [(''error'', JStr (js ''Server configuration error: Missing ElevenLabs API key.''))], w)
      else
        (let tempFilePath = tmpdir env @ js ''/tts-'' @ show_nat (now env) @ js ''.mp3'' in
         case textToSpeech env textInput of
           Inl ttsError \<Rightarrow> tts_inner_catch [] tempFilePath ttsError w
         | Inr audio \<Rightarrow>
             (case write_error env of
                Some ttsError \<Rightarrow> tts_inner_catch [] tempFilePath ttsError w
              | None \<Rightarrow>
                  (let w1 = w\<lparr>files := insert tempFilePath (files w)\<rparr> in
                   case send_error env of
                     Some ttsError \<Rightarrow> tts_inner_catch audio_headers tempFilePath ttsError w1
                   | None \<Rightarrow>
                       (\<lparr>status = 200, headers = audio_headers, resp_body = Bytes audio\<rparr>,
                        unlink_if_exists (Some tempFilePath) w1)))))"

definition ttsHandler :: "tts_env \<Rightarrow> tts_request \<Rightarrow> world \<Rightarrow> response \<times> world" where
  "ttsHandler env req w =
     (if tts_method req \<noteq> js ''POST'' then (method_not_allowed (tts_method req) [js ''POST''], w)
      else case tts_body req of
        None \<Rightarrow>
          tts_catch None
            (JsError None (js ''Cannot destructure property 'text' of 'req.body' as it is undefined.'')) w
      | Some form \<Rightarrow>
          (case text_field form of
             Some (JStr t) \<Rightarrow>
               if t = []
               then (json_response 400
                       [(''error'', JStr (js ''Text parameter is required and must be a string.''))], w)
               else synthesize env t w
           | _ \<Rightarrow>
               (json_response 400
                  [(''error'', JStr (js ''Text parameter is required and must be a string.''))], w)))"

section \<open>The chunker\<close>

text \<open>
  Modelled from the spec: the chunker \<^verbatim>\<open>chunk(text, size, overlap)\<close> of section 4.1. The
  handler delegates chunking to the library class \<^verbatim>\<open>RecursiveCharacterTextSplitter\<close>
  (\<^verbatim>\<open>chunkSize: 1000, chunkOverlap: 200\<close>), whose code is not part of the repository. The
  specification's words: consecutive windows of length \<open>size\<close> (here \<open>chunkSize\<close>), each
  starting \<open>size - overlap\<close> characters after the start of the previous one, until the remaining
  text is exhausted (the window that reaches the end of the text is the last one and may
  be shorter); \<^verbatim>\<open>InvalidConfig\<close> if \<open>overlap \<ge> size\<close> or \<open>size \<le> 0\<close>. An empty text has no
  chunk.
\<close>

datatype chunk_error = InvalidConfig

text \<open>
  Modelled from the spec: the windows of a non-empty text, the next one starting \<open>step\<close>
  (that is \<open>size - overlap\<close>) characters after the start of the previous one.
\<close>

function windows :: "nat \<Rightarrow> nat \<Rightarrow> 'a list \<Rightarrow> 'a list list" where
  "windows chunkSize step text =
     (if length text \<le> chunkSize \<or> step = 0 then [text]
      else take chunkSize text # windows chunkSize step (drop step text))"
  by pat_completeness auto
termination
  by (relation "measure (\<lambda>(chunkSize, step, text). length text)") auto

declare windows.simps [simp del]

text \<open>
  Modelled from the spec: \<^verbatim>\<open>chunk(text, size, overlap)\<close> with its check of the
  configuration.
\<close>

definition chunker :: "'a list \<Rightarrow> int \<Rightarrow> int \<Rightarrow> chunk_error + 'a list list" where
  "chunker text chunkSize chunkOverlap =
     (if chunkOverlap \<ge> chunkSize \<or> chunkSize \<le> 0 then Inl InvalidConfig
      else if text = [] then Inr []
      else Inr (windows (nat chunkSize) (nat (chunkSize - chunkOverlap)) text))"

text \<open>A chunk of text as the document the embedding loop receives.\<close>

definition as_document :: "jsstring \<Rightarrow> document" where
  "as_document t = \<lparr>pageContent = t, loc_pageNumber = None\<rparr>"

section \<open>Example inputs\<close>

text \<open>
  A request as the client sends it (a recording, no question), an environment in which
  every service answers, and the disk holding the file multer wrote for the request.
\<close>

definition demo_request :: ask_request where
  "demo_request =
     \<lparr>req_method = js ''POST'', upload_error = None,
      audioFile = Some (js ''/tmp/upload_1''), req_body = Some \<lparr>question = None\<rparr>\<rparr>"

definition demo_matches :: "match list" where
  "demo_matches =
     [\<lparr>match_text = Some (js ''NPV discounts cash flows.''), score = 0.9\<rparr>,
      \<lparr>match_text = Some (js ''IRR is the rate at which NPV is zero.''), score = 0.4\<rparr>]"

definition demo_env :: ask_env where
  "demo_env =
     \<lparr>PINECONE_API_KEY = Some (js ''pc-key''),
      PINECONE_ENVIRONMENT = Some (js ''pc-env''),
      OPENAI_API_KEY = Some (js ''oa-key''),
      embedQuery = (\<lambda>q. Inr [1, 0]),
      transcriptions_create = (\<lambda>p. Inr (js ''What is NPV?'')),
      index_query = (\<lambda>v. Inr \<lparr>matches = Some demo_matches\<rparr>),
      chat_completions_create =
        (\<lambda>sys user. Inr (Some (js ''<scratchpad>think</scratchpad>###  final '')))\<rparr>"

definition demo_world :: world where
  "demo_world = \<lparr>files = {js ''/tmp/upload_1''}, index_batches = [], calls = []\<rparr>"

text \<open>
  An upload of \<^verbatim>\<open>report.pdf\<close>. In the environment the embedding model fails on the text
  \<^verbatim>\<open>bad\<close> only, the splitter returns the given chunks, and the index accepts a batch
  while it holds fewer than \<open>accepted\<close> batches: with \<open>accepted = 0\<close> it rejects every
  batch, with \<open>accepted = 1\<close> it accepts the first batch only.
\<close>

definition demo_file :: uploaded_file where
  "demo_file = \<lparr>file_path = js ''docs/1-report.pdf'', originalname = js ''report.pdf''\<rparr>"

definition demo_upload_request :: upload_request where
  "demo_upload_request =
     \<lparr>upload_method = js ''POST'', multer_error = None, uploadedFile = Some demo_file\<rparr>"

definition demo_upload_env :: "document list \<Rightarrow> nat \<Rightarrow> upload_env" where
  "demo_upload_env chunks accepted =
     \<lparr>PINECONE_API_KEY = Some (js ''pc-key''),
      PINECONE_ENVIRONMENT = Some (js ''pc-env''),
      OPENAI_API_KEY = Some (js ''oa-key''),
      embedQuery =
        (\<lambda>t. if t = js ''bad'' then Inl (JsError None (js ''rate limit'')) else Inr [1, 0]),
      loader_load = (\<lambda>p. Inr [as_document (js ''page one'')]),
      splitDocuments = (\<lambda>docs. Inr chunks),
      index_upsert =
        (\<lambda>written batch.
           if length written < accepted then None
           else Some (JsError None (js ''quota exceeded'')))\<rparr>"

text \<open>
  Two answers of the index in ascending order of score; in the second, one match has no
  text.
\<close>

definition ascending_matches :: "match list" where
  "ascending_matches =
     [\<lparr>match_text = Some (js ''low''), score = 1\<rparr>,
      \<lparr>match_text = Some (js ''high''), score = 5\<rparr>]"

definition mixed_matches :: "match list" where
  "mixed_matches =
     [\<lparr>match_text = Some (js ''low''), score = 1\<rparr>,
      \<lparr>match_text = None, score = 3\<rparr>,
      \<lparr>match_text = Some (js ''high''), score = 5\<rparr>]"

text \<open>
  The same environment with a failing generation call or a failing transcription call,
  and a request that carries a question and no audio.
\<close>

definition generation_fails_env :: ask_env where
  "generation_fails_env =
     demo_env\<lparr>chat_completions_create := (\<lambda>sys user. Inl (JsError None (js ''timeout'')))\<rparr>"

definition transcription_fails_env :: ask_env where
  "transcription_fails_env =
     demo_env\<lparr>transcriptions_create := (\<lambda>p. Inl (JsError None (js ''bad audio'')))\<rparr>"

definition text_only_request :: ask_request where
  "text_only_request =
     \<lparr>req_method = js ''POST'', upload_error = None, audioFile = None,
      req_body = Some \<lparr>question = Some (js ''What is NPV?'')\<rparr>\<rparr>"

section \<open>Properties of the response parser\<close>

lemma cut_first_leftmost:
  "cut_first pat s = Some (pre, post) \<Longrightarrow> s = a @ pat @ b \<Longrightarrow> length pre \<le> length a"
proof (induction s arbitrary: pre a)
  case Nil
  then show ?case by (simp split: if_splits)
next
  case (Cons c cs)
  show ?case
  proof (cases "prefix pat (c # cs)")
    case True
    with Cons.prems(1) have "pre = []" by simp
    then show ?thesis by simp
  next
    case False
    with Cons.prems(1) obtain pre' where p: "cut_first pat cs = Some (pre', post)" "pre = c # pre'"
      by (auto split: option.splits)
    from False Cons.prems(2) have "a \<noteq> []" by auto
    with Cons.prems(2) obtain a' where a: "a = c # a'" "cs = a' @ pat @ b"
      by (cases a) auto
    from Cons.IH[OF p(1) a(2)] p(2) a(1) show ?thesis by simp
  qed
qed

lemma cut_first_None_iff: "cut_first pat s = None \<longleftrightarrow> \<not> sublist pat s"
  by (induction s) (auto simp: sublist_Cons_right split: option.splits)

lemma cut_first_no_earlier:
  "cut_first pat s = Some (pre, post) \<Longrightarrow> pat \<noteq> [] \<Longrightarrow> \<not> sublist pat (pre @ butlast pat)"
proof
  assume c: "cut_first pat s = Some (pre, post)" and ne: "pat \<noteq> []"
    and "sublist pat (pre @ butlast pat)"
  then obtain a b where ab: "pre @ butlast pat = a @ pat @ b" by (auto simp: sublist_def)
  from cut_first_decomp[OF c] ne have "s = pre @ butlast pat @ [last pat] @ post" by simp
  with ab have "s = a @ pat @ (b @ [last pat] @ post)" by simp
  from cut_first_leftmost[OF c this] have "length pre \<le> length a" .
  moreover from ab have "length pre + length (butlast pat) = length a + length pat + length b"
    by (metis length_append add.assoc)
  moreover from ne have "length (butlast pat) < length pat" by simp
  ultimately show False by linarith
qed

lemma cut_first_intro:
  "pat \<noteq> [] \<Longrightarrow> \<not> sublist pat (pre @ butlast pat) \<Longrightarrow> cut_first pat (pre @ pat @ post) = Some (pre, post)"
proof (induction pre)
  case Nil
  then obtain c cs where "pat @ post = c # cs" by (cases pat) auto
  then show ?case by (metis append_Nil append_eq_conv_conj cut_first.simps(2) prefixI)
next
  case (Cons c pre)
  from Cons.prems(2) have np: "\<not> prefix pat (c # pre @ butlast pat)" and ns: "\<not> sublist pat (pre @ butlast pat)"
    by (simp_all add: sublist_Cons_right)
  have "\<not> prefix pat (c # pre @ pat @ post)"
  proof
    assume "prefix pat (c # pre @ pat @ post)"
    moreover have "prefix (c # pre @ butlast pat) (c # pre @ pat @ post)"
      using Cons.prems(1) by (metis Cons_prefix_Cons append_butlast_last_id append.assoc prefixI same_prefix_prefix)
    moreover have "length pat \<le> length (c # pre @ butlast pat)" by simp
    ultimately have "prefix pat (c # pre @ butlast pat)" by (rule prefix_length_prefix)
    with np show False ..
  qed
  with Cons.IH[OF Cons.prems(1) ns] show ?case by simp
qed

lemma OPEN_ne: "OPEN_TAG \<noteq> []" and CLOSE_ne: "CLOSE_TAG \<noteq> []" and MARKER_ne: "MARKER \<noteq> []"
  by (simp_all add: OPEN_TAG_def CLOSE_TAG_def MARKER_def js_def)

lemma scratchpadMatch_Some_iff:
  "scratchpadMatch raw = Some (pre, body, post) \<longleftrightarrow>
     raw = pre @ OPEN_TAG @ body @ CLOSE_TAG @ post
     \<and> \<not> sublist OPEN_TAG (pre @ butlast OPEN_TAG)
     \<and> \<not> sublist CLOSE_TAG (body @ butlast CLOSE_TAG)"
proof
  assume "scratchpadMatch raw = Some (pre, body, post)"
  then obtain rest where 1: "cut_first OPEN_TAG raw = Some (pre, rest)"
    and 2: "cut_first CLOSE_TAG rest = Some (body, post)"
    by (auto simp: scratchpadMatch_def split: option.splits)
  from cut_first_decomp[OF 1] cut_first_decomp[OF 2]
    cut_first_no_earlier[OF 1 OPEN_ne] cut_first_no_earlier[OF 2 CLOSE_ne]
  show "raw = pre @ OPEN_TAG @ body @ CLOSE_TAG @ post
     \<and> \<not> sublist OPEN_TAG (pre @ butlast OPEN_TAG)
     \<and> \<not> sublist CLOSE_TAG (body @ butlast CLOSE_TAG)" by simp
next
  assume a: "raw = pre @ OPEN_TAG @ body @ CLOSE_TAG @ post
     \<and> \<not> sublist OPEN_TAG (pre @ butlast OPEN_TAG)
     \<and> \<not> sublist CLOSE_TAG (body @ butlast CLOSE_TAG)"
  then have "cut_first OPEN_TAG raw = Some (pre, body @ CLOSE_TAG @ post)"
    using cut_first_intro[OF OPEN_ne, of pre "body @ CLOSE_TAG @ post"] by simp
  moreover from a have "cut_first CLOSE_TAG (body @ CLOSE_TAG @ post) = Some (body, post)"
    using cut_first_intro[OF CLOSE_ne, of body post] by simp
  ultimately show "scratchpadMatch raw = Some (pre, body, post)"
    by (simp add: scratchpadMatch_def)
qed

lemma scratchpadMatch_None_iff:
  "scratchpadMatch raw = None \<longleftrightarrow> \<not> (\<exists>a b c. raw = a @ OPEN_TAG @ b @ CLOSE_TAG @ c)"
proof
  assume n: "scratchpadMatch raw = None"
  show "\<not> (\<exists>a b c. raw = a @ OPEN_TAG @ b @ CLOSE_TAG @ c)"
  proof
    assume "\<exists>a b c. raw = a @ OPEN_TAG @ b @ CLOSE_TAG @ c"
    then obtain a b c where r: "raw = a @ OPEN_TAG @ b @ CLOSE_TAG @ c" by blast
    then have "sublist OPEN_TAG raw" by (auto simp: sublist_def)
    then obtain pre rest where 1: "cut_first OPEN_TAG raw = Some (pre, rest)"
      using cut_first_None_iff[of OPEN_TAG raw] by (cases "cut_first OPEN_TAG raw") auto
    from cut_first_leftmost[OF 1, of a "b @ CLOSE_TAG @ c"] r have le: "length pre \<le> length a" by simp
    from cut_first_decomp[OF 1] have r2: "raw = pre @ OPEN_TAG @ rest" .
    have "rest = drop (length pre + length OPEN_TAG) raw" using r2 by simp
    also have "\<dots> = drop (length pre + length OPEN_TAG) (a @ OPEN_TAG @ b @ CLOSE_TAG @ c)" using r by simp
    also have "\<dots> = drop (length pre + length OPEN_TAG) (a @ OPEN_TAG) @ b @ CLOSE_TAG @ c"
      using le by simp
    finally have "rest = (drop (length pre + length OPEN_TAG) (a @ OPEN_TAG) @ b) @ CLOSE_TAG @ c"
      by simp
    then have "sublist CLOSE_TAG rest" unfolding sublist_def by blast
    then have "cut_first CLOSE_TAG rest \<noteq> None" by (simp add: cut_first_None_iff)
    with 1 n show False by (auto simp: scratchpadMatch_def split: option.splits)
  qed
next
  assume n: "\<not> (\<exists>a b c. raw = a @ OPEN_TAG @ b @ CLOSE_TAG @ c)"
  show "scratchpadMatch raw = None"
  proof (cases "scratchpadMatch raw")
    case None
    then show ?thesis .
  next
    case (Some t)
    obtain pre body post where "t = (pre, body, post)" by (cases t) auto
    with Some have "raw = pre @ OPEN_TAG @ body @ CLOSE_TAG @ post"
      by (simp add: scratchpadMatch_Some_iff)
    with n show ?thesis by blast
  qed
qed

lemma trim_Nil_iff: "trim s = [] \<longleftrightarrow> (\<forall>u\<in>set s. is_ws u)"
proof (cases "dropWhile is_ws s")
  case Nil
  then have "\<forall>u\<in>set s. is_ws u" by (simp only: dropWhile_eq_Nil_conv)
  moreover have "trim s = []" unfolding trim_def Nil by simp
  ultimately show ?thesis by simp
next
  case (Cons x xs)
  then have "\<not> is_ws x" by (metis hd_dropWhile list.sel(1) list.distinct(1))
  moreover from Cons have "x \<in> set s" by (metis list.set_intros(1) set_dropWhileD)
  ultimately show ?thesis using Cons by (auto simp: trim_def)
qed

lemma split_js_no_sep: "sep \<noteq> [] \<Longrightarrow> \<not> sublist sep s \<Longrightarrow> split_js sep s = [s]"
  using cut_first_None_iff[of sep s] by (simp add: split_js.simps)

lemma split_js_first:
  "sep \<noteq> [] \<Longrightarrow> cut_first sep s = Some (pre, post) \<Longrightarrow> split_js sep s = pre # split_js sep post"
  by (subst split_js.simps) simp

lemma segment_after_marker:
  assumes "responseContent = pre @ MARKER @ post"
    and "\<not> sublist MARKER (pre @ butlast MARKER)"
    and "\<not> sublist MARKER post"
  shows "index_opt (split_js MARKER responseContent) 1 = Some post"
proof -
  from assms(1,2) have "cut_first MARKER responseContent = Some (pre, post)"
    by (simp add: cut_first_intro[OF MARKER_ne])
  then have "split_js MARKER responseContent = pre # split_js MARKER post"
    by (rule split_js_first[OF MARKER_ne])
  also have "split_js MARKER post = [post]"
    using assms(3) by (rule split_js_no_sep[OF MARKER_ne])
  finally show ?thesis by (simp add: index_opt_def)
qed

text \<open>
  Claim C3, as amended. When the output holds the marker \<^verbatim>\<open>###\<close> and the text after its
  first occurrence holds no further marker, the answer is the trimmed text after the
  marker, unless that text is blank: then \<^verbatim>\<open>||\<close> falls back to the output with the first
  reasoning block removed, trimmed. (The second hypothesis says that no occurrence of the
  marker starts within \<open>pre\<close>: the marker after \<open>pre\<close> is the first one.)
\<close>

theorem answer_after_single_marker:
  assumes "responseContent = pre @ MARKER @ post"
    and "\<not> sublist MARKER (pre @ butlast MARKER)"
    and "\<not> sublist MARKER post"
  shows "answer (parse_response responseContent) =
           (if trim post = [] then trim (remove_scratchpad responseContent) else trim post)"
  using segment_after_marker[OF assms]
  by (simp add: parse_response_def or_else_def)

text \<open>Witness for C3: the specification's example, and an output that ends with the marker.\<close>

theorem answer_after_single_marker_witness:
  "answer (parse_response (js ''<scratchpad>think</scratchpad>###  final '')) = js ''final''
   \<and> answer (parse_response (js ''hello###'')) = js ''hello###''"
proof
  have a: "js ''<scratchpad>think</scratchpad>###  final '' = js ''<scratchpad>think</scratchpad>'' @ MARKER @ js ''  final ''"
    by (simp add: js_def MARKER_def)
  have b: "\<not> sublist MARKER (js ''<scratchpad>think</scratchpad>'' @ butlast MARKER)"
    by code_simp
  have c: "\<not> sublist MARKER (js ''  final '')"
    by code_simp
  have d: "trim (js ''  final '') = js ''final''"
    by code_simp
  from answer_after_single_marker[OF a b c] d
  show "answer (parse_response (js ''<scratchpad>think</scratchpad>###  final '')) = js ''final''"
    by (simp add: js_def)
next
  have a: "js ''hello###'' = js ''hello'' @ MARKER @ []"
    by (simp add: js_def MARKER_def)
  have b: "\<not> sublist MARKER (js ''hello'' @ butlast MARKER)"
    by code_simp
  have c: "\<not> sublist MARKER ([] :: jsstring)"
    by code_simp
  have d: "trim (remove_scratchpad (js ''hello###'')) = js ''hello###''"
    by code_simp
  from answer_after_single_marker[OF a b c] d
  show "answer (parse_response (js ''hello###'')) = js ''hello###''"
    by (simp add: trim_def)
qed

text \<open>
  Counterexample to C3 as stated: in \<^verbatim>\<open>hello###\<close> the text after the marker is empty, and the
  answer is not its trimmed text but the whole output.
\<close>

theorem answer_after_marker_counterexample:
  "js ''hello###'' = js ''hello'' @ MARKER @ []
   \<and> answer (parse_response (js ''hello###'')) \<noteq> trim []"
  by code_simp

text \<open>
  \<^verbatim>\<open>split('###')[1]\<close> is the segment between the first and the second marker: whatever
  follows a second marker is not part of the answer.
\<close>

lemma second_marker_cuts_answer:
  "answer (parse_response (js ''a###b###c'')) = js ''b''"
  by code_simp

text \<open>
  Claim C4, as amended. For an output without the marker \<^verbatim>\<open>###\<close> the answer is the output
  with the first reasoning block removed, trimmed. It is empty exactly when nothing but
  white space is left outside that block; an output that is one reasoning block and
  nothing else has the empty answer.
\<close>

theorem answer_without_marker:
  assumes "\<not> sublist MARKER responseContent"
  shows "answer (parse_response responseContent) = trim (remove_scratchpad responseContent)
         \<and> (answer (parse_response responseContent) = []
              \<longleftrightarrow> (\<forall>u\<in>set (remove_scratchpad responseContent). is_ws u))
         \<and> (\<forall>body. responseContent = OPEN_TAG @ body @ CLOSE_TAG
                      \<and> \<not> sublist CLOSE_TAG (body @ butlast CLOSE_TAG)
                \<longrightarrow> answer (parse_response responseContent) = [])"
proof -
  have "index_opt (split_js MARKER responseContent) 1 = None"
    using split_js_no_sep[OF MARKER_ne assms] by (simp add: index_opt_def)
  then have 1: "answer (parse_response responseContent) = trim (remove_scratchpad responseContent)"
    by (simp add: parse_response_def or_else_def)
  have 3: "answer (parse_response responseContent) = []"
    if "responseContent = OPEN_TAG @ body @ CLOSE_TAG"
      and "\<not> sublist CLOSE_TAG (body @ butlast CLOSE_TAG)" for body
  proof -
    have "\<not> sublist OPEN_TAG ([] @ butlast OPEN_TAG)"
      by code_simp
    with that have "scratchpadMatch responseContent = Some ([], body, [])"
      by (simp add: scratchpadMatch_Some_iff)
    with 1 show ?thesis by (simp add: remove_scratchpad_def trim_def)
  qed
  from 1 3 show ?thesis by (simp add: trim_Nil_iff)
qed

text \<open>Witness for C4: an output without tags, and an output that is only a reasoning block.\<close>

theorem answer_without_marker_witness:
  "answer (parse_response (js ''  The NPV is 12.  '')) = js ''The NPV is 12.''
   \<and> answer (parse_response (js ''<scratchpad>think</scratchpad>'')) = []"
proof -
  have a: "\<not> sublist MARKER (js ''  The NPV is 12.  '')" by code_simp
  have b: "trim (remove_scratchpad (js ''  The NPV is 12.  '')) = js ''The NPV is 12.''" by code_simp
  have c: "\<not> sublist MARKER (js ''<scratchpad>think</scratchpad>'')" by code_simp
  have d: "js ''<scratchpad>think</scratchpad>'' = OPEN_TAG @ js ''think'' @ CLOSE_TAG"
    by (simp add: js_def OPEN_TAG_def CLOSE_TAG_def)
  have e: "\<not> sublist CLOSE_TAG (js ''think'' @ butlast CLOSE_TAG)" by code_simp
  from answer_without_marker[OF a] b
  have "answer (parse_response (js ''  The NPV is 12.  '')) = js ''The NPV is 12.''"
    by simp
  moreover from answer_without_marker[OF c] d e
  have "answer (parse_response (js ''<scratchpad>think</scratchpad>'')) = []"
    by blast
  ultimately show ?thesis ..
qed

text \<open>
  Counterexample to C4 as stated: a non-empty output without marker, consisting solely of
  a reasoning block, has the empty answer.
\<close>

theorem answer_without_marker_counterexample:
  "js ''<scratchpad>think</scratchpad>'' \<noteq> []
   \<and> \<not> sublist MARKER (js ''<scratchpad>think</scratchpad>'')
   \<and> answer (parse_response (js ''<scratchpad>think</scratchpad>'')) = []"
  by code_simp

text \<open>
  Claim C5. If the output holds a reasoning block (an opening tag with a closing tag
  somewhere after it), the scratchpad is the block from the leftmost opening tag to the
  nearest closing tag after it, both tags included; such a block exists whenever any
  opening tag is followed by a closing tag. Otherwise the scratchpad is the placeholder
  \<^verbatim>\<open>No scratchpad content found.\<close> (No opening tag starts within \<open>pre\<close> and no closing tag
  starts within \<open>body\<close>: that is what the two \<open>sublist\<close> conditions say.)
\<close>

theorem scratchpad_block_or_placeholder:
  "(\<forall>pre body post.
      responseContent = pre @ OPEN_TAG @ body @ CLOSE_TAG @ post
      \<and> \<not> sublist OPEN_TAG (pre @ butlast OPEN_TAG)
      \<and> \<not> sublist CLOSE_TAG (body @ butlast CLOSE_TAG)
      \<longrightarrow> scratchpad (parse_response responseContent) = OPEN_TAG @ body @ CLOSE_TAG)
   \<and> ((\<exists>a b c. responseContent = a @ OPEN_TAG @ b @ CLOSE_TAG @ c)
        \<longrightarrow> (\<exists>pre body post.
               responseContent = pre @ OPEN_TAG @ body @ CLOSE_TAG @ post
               \<and> \<not> sublist OPEN_TAG (pre @ butlast OPEN_TAG)
               \<and> \<not> sublist CLOSE_TAG (body @ butlast CLOSE_TAG)))
   \<and> (\<not> (\<exists>a b c. responseContent = a @ OPEN_TAG @ b @ CLOSE_TAG @ c)
        \<longrightarrow> scratchpad (parse_response responseContent) = NO_SCRATCHPAD)"
proof (intro conjI allI impI)
  fix pre body post
  assume "responseContent = pre @ OPEN_TAG @ body @ CLOSE_TAG @ post
      \<and> \<not> sublist OPEN_TAG (pre @ butlast OPEN_TAG)
      \<and> \<not> sublist CLOSE_TAG (body @ butlast CLOSE_TAG)"
  then have "scratchpadMatch responseContent = Some (pre, body, post)"
    by (simp add: scratchpadMatch_Some_iff)
  then show "scratchpad (parse_response responseContent) = OPEN_TAG @ body @ CLOSE_TAG"
    by (simp add: parse_response_def)
next
  assume "\<exists>a b c. responseContent = a @ OPEN_TAG @ b @ CLOSE_TAG @ c"
  then have "scratchpadMatch responseContent \<noteq> None"
    by (simp add: scratchpadMatch_None_iff)
  then obtain pre body post where "scratchpadMatch responseContent = Some (pre, body, post)"
    by (cases "scratchpadMatch responseContent") auto
  then show "\<exists>pre body post.
               responseContent = pre @ OPEN_TAG @ body @ CLOSE_TAG @ post
               \<and> \<not> sublist OPEN_TAG (pre @ butlast OPEN_TAG)
               \<and> \<not> sublist CLOSE_TAG (body @ butlast CLOSE_TAG)"
    using scratchpadMatch_Some_iff by blast
next
  assume "\<not> (\<exists>a b c. responseContent = a @ OPEN_TAG @ b @ CLOSE_TAG @ c)"
  then have "scratchpadMatch responseContent = None"
    by (simp add: scratchpadMatch_None_iff)
  then show "scratchpad (parse_response responseContent) = NO_SCRATCHPAD"
    by (simp add: parse_response_def)
qed

text \<open>Witness for C5: the specification's example, and an output without tags.\<close>

theorem scratchpad_block_or_placeholder_witness:
  "scratchpad (parse_response (js ''<scratchpad>think</scratchpad>###  final ''))
     = js ''<scratchpad>think</scratchpad>''
   \<and> scratchpad (parse_response (js ''The NPV is 12.'')) = js ''No scratchpad content found.''"
proof
  have a: "js ''<scratchpad>think</scratchpad>###  final '' = [] @ OPEN_TAG @ js ''think'' @ CLOSE_TAG @ js ''###  final ''"
    by (simp add: js_def OPEN_TAG_def CLOSE_TAG_def)
  have b: "\<not> sublist OPEN_TAG ([] @ butlast OPEN_TAG)" by code_simp
  have c: "\<not> sublist CLOSE_TAG (js ''think'' @ butlast CLOSE_TAG)" by code_simp
  from scratchpad_block_or_placeholder[of "js ''<scratchpad>think</scratchpad>###  final ''"] a b c
  have "scratchpad (parse_response (js ''<scratchpad>think</scratchpad>###  final '')) = OPEN_TAG @ js ''think'' @ CLOSE_TAG"
    by blast
  then show "scratchpad (parse_response (js ''<scratchpad>think</scratchpad>###  final ''))
     = js ''<scratchpad>think</scratchpad>''"
    by (simp add: js_def OPEN_TAG_def CLOSE_TAG_def)
next
  have "scratchpadMatch (js ''The NPV is 12.'') = None" by code_simp
  then have "\<not> (\<exists>a b c. js ''The NPV is 12.'' = a @ OPEN_TAG @ b @ CLOSE_TAG @ c)"
    by (simp add: scratchpadMatch_None_iff)
  with scratchpad_block_or_placeholder[of "js ''The NPV is 12.''"]
  show "scratchpad (parse_response (js ''The NPV is 12.'')) = js ''No scratchpad content found.''"
    by (simp add: NO_SCRATCHPAD_def)
qed

section \<open>Properties of the query handler\<close>

lemma askHandler_query:
  assumes "reaches_transcription env req form p"
    and "transcriptions_create env p = Inr t"
    and "or_else (question form) t = q" and "q \<noteq> []"
  shows "askHandler env req w =
           (generate env t q (fst (retrieve env q)),
            (unlink_if_exists (Some p) (called (Transcribe p) w))
              \<lparr>calls := calls w @ [Transcribe p] @ snd (retrieve env q)
                          @ [ChatCompletion (systemPrompt (fst (retrieve env q))) q]\<rparr>)"
  using assms
  by (cases "retrieve env q")
     (simp add: askHandler_def reaches_transcription_def called_def unlink_if_exists_def Let_def)

lemma askHandler_transcription_error:
  assumes "reaches_transcription env req form p"
    and "transcriptions_create env p = Inl e"
  shows "askHandler env req w =
           (json_response 500
              [(''error'', JStr (js ''Failed to transcribe audio.'')),
               (''details'', JStr (message e))],
            called (Transcribe p) w)"
  using assms by (simp add: askHandler_def reaches_transcription_def)

lemma askHandler_no_audio:
  assumes "req_method req = js ''POST''" and "upload_error req = None"
    and "req_body req = Some form" and "audioFile req = None"
  shows "askHandler env req w =
           (json_response 400 [(''error'', JStr (js ''No audio file uploaded.''))], w)"
  using assms by (simp add: askHandler_def)

lemma generate_error:
  assumes "chat_completions_create env (systemPrompt ctx) q = Inl e"
  shows "generate env t q ctx = generation_failed e"
  using assms by (simp add: generate_def)

lemma generate_no_content:
  assumes "chat_completions_create env (systemPrompt ctx) q = Inr c" and "c = None \<or> c = Some []"
  shows "generate env t q ctx = generation_failed (JsError None (js ''No response content from GPT-4o''))"
  using assms by (auto simp add: generate_def)

text \<open>
  Claim C1, as amended. When the transcription call or the generation call fails, the
  response has status 500 and exactly two fields: the fixed error message of the stage
  and the message of the failure as details. It carries no partial field; the payload of
  a generation failure is the same whatever the transcription was.
\<close>

theorem fatal_error_payload:
  assumes "reaches_transcription env req form p"
  shows "(\<forall>e. transcriptions_create env p = Inl e \<longrightarrow>
            fst (askHandler env req w) =
              json_response 500
                [(''error'', JStr (js ''Failed to transcribe audio.'')),
                 (''details'', JStr (message e))])
       \<and> (\<forall>t q e. transcriptions_create env p = Inr t
                  \<and> or_else (question form) t = q \<and> q \<noteq> []
                  \<and> chat_completions_create env (systemPrompt (fst (retrieve env q))) q = Inl e \<longrightarrow>
            fst (askHandler env req w) =
              json_response 500
                [(''error'', JStr (js ''Failed to get answer from AI model.'')),
                 (''details'', JStr (message e))])
       \<and> (\<forall>t q c. transcriptions_create env p = Inr t
                  \<and> or_else (question form) t = q \<and> q \<noteq> []
                  \<and> chat_completions_create env (systemPrompt (fst (retrieve env q))) q = Inr c
                  \<and> (c = None \<or> c = Some []) \<longrightarrow>
            fst (askHandler env req w) =
              json_response 500
                [(''error'', JStr (js ''Failed to get answer from AI model.'')),
                 (''details'', JStr (js ''No response content from GPT-4o''))])"
proof (intro conjI allI impI)
  fix e assume "transcriptions_create env p = Inl e"
  with assms show "fst (askHandler env req w) =
              json_response 500
                [(''error'', JStr (js ''Failed to transcribe audio.'')),
                 (''details'', JStr (message e))]"
    by (simp add: askHandler_transcription_error)
next
  fix t q e
  assume a: "transcriptions_create env p = Inr t
                  \<and> or_else (question form) t = q \<and> q \<noteq> []
                  \<and> chat_completions_create env (systemPrompt (fst (retrieve env q))) q = Inl e"
  then have "fst (askHandler env req w) = generate env t q (fst (retrieve env q))"
    using askHandler_query[OF assms, of t q w] by simp
  with a show "fst (askHandler env req w) =
              json_response 500
                [(''error'', JStr (js ''Failed to get answer from AI model.'')),
                 (''details'', JStr (message e))]"
    by (simp add: generate_error generation_failed_def)
next
  fix t q c
  assume a: "transcriptions_create env p = Inr t
                  \<and> or_else (question form) t = q \<and> q \<noteq> []
                  \<and> chat_completions_create env (systemPrompt (fst (retrieve env q))) q = Inr c
                  \<and> (c = None \<or> c = Some [])"
  then have "fst (askHandler env req w) = generate env t q (fst (retrieve env q))"
    using askHandler_query[OF assms, of t q w] by simp
  with a show "fst (askHandler env req w) =
              json_response 500
                [(''error'', JStr (js ''Failed to get answer from AI model.'')),
                 (''details'', JStr (js ''No response content from GPT-4o''))]"
    using generate_no_content[of env "fst (retrieve env q)" q c t]
    by (simp add: generation_failed_def)
qed

lemma demo_reaches:
  "reaches_transcription demo_env demo_request \<lparr>question = None\<rparr> (js ''/tmp/upload_1'')"
  "reaches_transcription generation_fails_env demo_request \<lparr>question = None\<rparr> (js ''/tmp/upload_1'')"
  "reaches_transcription transcription_fails_env demo_request \<lparr>question = None\<rparr> (js ''/tmp/upload_1'')"
  by (simp_all add: reaches_transcription_def demo_env_def demo_request_def missing_def js_def
       generation_fails_env_def transcription_fails_env_def)

text \<open>Witness for C1: a failing transcription, and a failing generation after a
  successful transcription.\<close>

theorem fatal_error_payload_witness:
  "fst (askHandler transcription_fails_env demo_request demo_world) =
     json_response 500
       [(''error'', JStr (js ''Failed to transcribe audio.'')),
        (''details'', JStr (js ''bad audio''))]
   \<and> fst (askHandler generation_fails_env demo_request demo_world) =
     json_response 500
       [(''error'', JStr (js ''Failed to get answer from AI model.'')),
        (''details'', JStr (js ''timeout''))]"
proof
  have "transcriptions_create transcription_fails_env (js ''/tmp/upload_1'') = Inl (JsError None (js ''bad audio''))"
    by (simp add: transcription_fails_env_def)
  with fatal_error_payload[OF demo_reaches(3), of demo_world, THEN conjunct1]
  show "fst (askHandler transcription_fails_env demo_request demo_world) =
     json_response 500
       [(''error'', JStr (js ''Failed to transcribe audio.'')),
        (''details'', JStr (js ''bad audio''))]"
    by simp
next
  let ?q = "js ''What is NPV?''"
  have "transcriptions_create generation_fails_env (js ''/tmp/upload_1'') = Inr ?q
        \<and> or_else (question \<lparr>question = None\<rparr>) ?q = ?q \<and> ?q \<noteq> []
        \<and> chat_completions_create generation_fails_env (systemPrompt (fst (retrieve generation_fails_env ?q))) ?q
            = Inl (JsError None (js ''timeout''))"
    by (simp add: generation_fails_env_def demo_env_def or_else_def js_def)
  with fatal_error_payload[OF demo_reaches(2), of demo_world, THEN conjunct2, THEN conjunct1]
  have "fst (askHandler generation_fails_env demo_request demo_world) =
     json_response 500
       [(''error'', JStr (js ''Failed to get answer from AI model.'')),
        (''details'', JStr (message (JsError None (js ''timeout''))))]"
    by blast
  then show "fst (askHandler generation_fails_env demo_request demo_world) =
     json_response 500
       [(''error'', JStr (js ''Failed to get answer from AI model.'')),
        (''details'', JStr (js ''timeout''))]"
    by simp
qed

text \<open>
  Counterexample to C1 as stated: the transcription succeeds with \<^verbatim>\<open>What is NPV?\<close>, the
  generation call fails, and the payload holds the error and its details only: it has no
  \<^verbatim>\<open>transcription\<close> field.
\<close>

theorem generation_failure_counterexample:
  "transcriptions_create generation_fails_env (js ''/tmp/upload_1'') = Inr (js ''What is NPV?'')
   \<and> resp_body (fst (askHandler generation_fails_env demo_request demo_world)) =
       Json [(''error'', JStr (js ''Failed to get answer from AI model.'')),
             (''details'', JStr (js ''timeout''))]
   \<and> field (fst (askHandler generation_fails_env demo_request demo_world)) ''transcription'' = None"
proof -
  let ?q = "js ''What is NPV?''"
  have t: "transcriptions_create generation_fails_env (js ''/tmp/upload_1'') = Inr ?q"
    by (simp add: generation_fails_env_def demo_env_def)
  have q: "or_else (question \<lparr>question = None\<rparr>) ?q = ?q" "?q \<noteq> []"
    by (simp_all add: or_else_def js_def)
  have g: "generate generation_fails_env ?q ?q (fst (retrieve generation_fails_env ?q))
             = generation_failed (JsError None (js ''timeout''))"
    by (rule generate_error) (simp add: generation_fails_env_def)
  from askHandler_query[OF demo_reaches(2) t q, of demo_world] g
  have "fst (askHandler generation_fails_env demo_request demo_world)
          = generation_failed (JsError None (js ''timeout''))"
    by simp
  with t show ?thesis
    by (simp add: generation_failed_def json_response_def field_def)
qed

lemma parse_response_example:
  "parse_response (js ''<scratchpad>think</scratchpad>###  final '')
     = \<lparr>answer = js ''final'', scratchpad = js ''<scratchpad>think</scratchpad>''\<rparr>"
  by (simp add: parse_response_def scratchpadMatch_def remove_scratchpad_def split_js.simps
        index_opt_def or_else_def trim_def is_ws_def js_def OPEN_TAG_def CLOSE_TAG_def MARKER_def)

lemma join_Nil_iff: "join sep xs = [] \<longleftrightarrow> (xs = [] \<or> (sep = [] \<and> (\<forall>x\<in>set xs. x = [])) \<or> xs = [[]])"
  by (induction sep xs rule: join.induct) auto

lemma join_truthy_ne: "truthy_texts ms \<noteq> [] \<Longrightarrow> join SEPARATOR (truthy_texts ms) \<noteq> []"
proof -
  assume a: "truthy_texts ms \<noteq> []"
  then obtain x xs where x: "truthy_texts ms = x # xs" by (cases "truthy_texts ms") auto
  then have "x \<in> set (truthy_texts ms)" by simp
  then have "x \<noteq> []" by (simp add: truthy_texts_def)
  with x show ?thesis by (cases xs) auto
qed

lemma format_context_cases:
  "format_context r =
     (case matches r of
        None \<Rightarrow> NO_CONTEXT
      | Some ms \<Rightarrow> if truthy_texts ms = [] then NO_CONTEXT else join SEPARATOR (truthy_texts ms))"
  using join_truthy_ne by (auto simp: format_context_def or_else_def split: option.splits)

lemma truthy_texts_filter:
  "truthy_texts ms
     = map (the \<circ> match_text)
         (filter (\<lambda>m. match_text m \<noteq> None \<and> match_text m \<noteq> Some []) ms)"
  by (induction ms) (auto simp: truthy_texts_def split: option.splits)

text \<open>
  Claim C2, as amended. Retrieval never fails the request. If the embedding call or the
  index query raises, the context is the marker
  \<^verbatim>\<open>Error retrieving context from knowledge base.\<close>; if the query succeeds and no match carries
  a non-empty text (in particular with zero matches) it is the different marker
  \<^verbatim>\<open>No relevant context found.\<close>; otherwise it is the non-empty texts of the matches, joined
  with the separator in the order in which the index returned them, whatever their
  scores. In every case the handler goes on to the generation call with that context,
  and its response is the one the generation step produces.
\<close>

theorem retrieval_never_fails:
  "(\<forall>e. embedQuery env q = Inl e \<longrightarrow> fst (retrieve env q) = CONTEXT_ERROR)
   \<and> (\<forall>v e. embedQuery env q = Inr v \<and> index_query env v = Inl e \<longrightarrow>
         fst (retrieve env q) = CONTEXT_ERROR)
   \<and> (\<forall>v r. embedQuery env q = Inr v \<and> index_query env v = Inr r
         \<and> (matches r = None \<or> matches r = Some []) \<longrightarrow>
         fst (retrieve env q) = NO_CONTEXT)
   \<and> (\<forall>v r ms. embedQuery env q = Inr v \<and> index_query env v = Inr r \<and> matches r = Some ms
         \<and> filter (\<lambda>m. match_text m \<noteq> None \<and> match_text m \<noteq> Some []) ms = [] \<longrightarrow>
         fst (retrieve env q) = NO_CONTEXT)
   \<and> (\<forall>v r ms. embedQuery env q = Inr v \<and> index_query env v = Inr r \<and> matches r = Some ms
         \<and> filter (\<lambda>m. match_text m \<noteq> None \<and> match_text m \<noteq> Some []) ms \<noteq> [] \<longrightarrow>
         fst (retrieve env q)
           = join SEPARATOR
               (map (the \<circ> match_text)
                  (filter (\<lambda>m. match_text m \<noteq> None \<and> match_text m \<noteq> Some []) ms)))
   \<and> CONTEXT_ERROR \<noteq> NO_CONTEXT
   \<and> (\<forall>req form p t w. reaches_transcription env req form p
         \<and> transcriptions_create env p = Inr t \<and> or_else (question form) t = q \<and> q \<noteq> [] \<longrightarrow>
         fst (askHandler env req w) = generate env t q (fst (retrieve env q))
         \<and> ChatCompletion (systemPrompt (fst (retrieve env q))) q
             \<in> set (calls (snd (askHandler env req w))))"
proof (intro conjI allI impI)
  fix e assume "embedQuery env q = Inl e"
  then show "fst (retrieve env q) = CONTEXT_ERROR" by (simp add: retrieve_def)
next
  fix v e assume "embedQuery env q = Inr v \<and> index_query env v = Inl e"
  then show "fst (retrieve env q) = CONTEXT_ERROR" by (simp add: retrieve_def)
next
  fix v r
  assume "embedQuery env q = Inr v \<and> index_query env v = Inr r
         \<and> (matches r = None \<or> matches r = Some [])"
  then show "fst (retrieve env q) = NO_CONTEXT"
    by (auto simp: retrieve_def format_context_cases truthy_texts_def)
next
  fix v r ms
  assume "embedQuery env q = Inr v \<and> index_query env v = Inr r \<and> matches r = Some ms
         \<and> filter (\<lambda>m. match_text m \<noteq> None \<and> match_text m \<noteq> Some []) ms = []"
  then show "fst (retrieve env q) = NO_CONTEXT"
    by (simp add: retrieve_def format_context_cases truthy_texts_filter)
next
  fix v r ms
  assume "embedQuery env q = Inr v \<and> index_query env v = Inr r \<and> matches r = Some ms
         \<and> filter (\<lambda>m. match_text m \<noteq> None \<and> match_text m \<noteq> Some []) ms \<noteq> []"
  then show "fst (retrieve env q)
           = join SEPARATOR
               (map (the \<circ> match_text)
                  (filter (\<lambda>m. match_text m \<noteq> None \<and> match_text m \<noteq> Some []) ms))"
    by (simp add: retrieve_def format_context_cases truthy_texts_filter)
next
  show "CONTEXT_ERROR \<noteq> NO_CONTEXT" by (simp add: CONTEXT_ERROR_def NO_CONTEXT_def js_def)
next
  fix req form p t w
  assume a: "reaches_transcription env req form p
         \<and> transcriptions_create env p = Inr t \<and> or_else (question form) t = q \<and> q \<noteq> []"
  then have "askHandler env req w =
           (generate env t q (fst (retrieve env q)),
            (unlink_if_exists (Some p) (called (Transcribe p) w))
              \<lparr>calls := calls w @ [Transcribe p] @ snd (retrieve env q)
                          @ [ChatCompletion (systemPrompt (fst (retrieve env q))) q]\<rparr>)"
    using askHandler_query[of env req form p t q w] by blast
  then show "fst (askHandler env req w) = generate env t q (fst (retrieve env q))"
    and "ChatCompletion (systemPrompt (fst (retrieve env q))) q
             \<in> set (calls (snd (askHandler env req w)))"
    by simp_all
qed

text \<open>Witness for C2: a failing embedding call, a failing index query, an empty answer of
  the index, an answer whose only match has no text, and an answer of three matches in
  ascending order of score, the second without text.\<close>

theorem retrieval_never_fails_witness:
  "fst (retrieve (demo_env\<lparr>embedQuery := (\<lambda>q. Inl (JsError None (js ''down'')))\<rparr>) (js ''What is NPV?''))
     = js ''Error retrieving context from knowledge base.''
   \<and> fst (retrieve (demo_env\<lparr>index_query := (\<lambda>v. Inl (JsError None (js ''down'')))\<rparr>) (js ''What is NPV?''))
     = js ''Error retrieving context from knowledge base.''
   \<and> fst (retrieve (demo_env\<lparr>index_query := (\<lambda>v. Inr \<lparr>matches = Some []\<rparr>)\<rparr>) (js ''What is NPV?''))
     = js ''No relevant context found.''
   \<and> fst (retrieve (demo_env\<lparr>index_query :=
          (\<lambda>v. Inr \<lparr>matches = Some [\<lparr>match_text = None, score = 3\<rparr>]\<rparr>)\<rparr>) (js ''What is NPV?''))
     = js ''No relevant context found.''
   \<and> fst (retrieve (demo_env\<lparr>index_query := (\<lambda>v. Inr \<lparr>matches = Some mixed_matches\<rparr>)\<rparr>)
          (js ''What is NPV?''))
     = js ''low'' @ [10, 10] @ js ''---'' @ [10, 10] @ js ''high''
   \<and> fst (askHandler (demo_env\<lparr>embedQuery := (\<lambda>q. Inl (JsError None (js ''down'')))\<rparr>) demo_request demo_world)
     = json_response 200
         [(''answer'', JStr (js ''final'')),
          (''scratchpad'', JStr (js ''<scratchpad>think</scratchpad>'')),
          (''transcription'', JStr (js ''What is NPV?''))]"
proof (intro conjI)
  let ?q = "js ''What is NPV?''"
  let ?P = "\<lambda>m. match_text m \<noteq> None \<and> match_text m \<noteq> Some []"
  let ?e1 = "demo_env\<lparr>embedQuery := (\<lambda>q. Inl (JsError None (js ''down'')))\<rparr>"
  let ?e2 = "demo_env\<lparr>index_query := (\<lambda>v. Inl (JsError None (js ''down'')))\<rparr>"
  let ?e3 = "demo_env\<lparr>index_query := (\<lambda>v. Inr \<lparr>matches = Some []\<rparr>)\<rparr>"
  let ?m4 = "[\<lparr>match_text = None, score = 3\<rparr>]"
  let ?e4 = "demo_env\<lparr>index_query := (\<lambda>v. Inr \<lparr>matches = Some ?m4\<rparr>)\<rparr>"
  let ?e5 = "demo_env\<lparr>index_query := (\<lambda>v. Inr \<lparr>matches = Some mixed_matches\<rparr>)\<rparr>"
  note c1 = retrieval_never_fails[of ?e1 ?q, THEN conjunct1, rule_format]
  note c2 = retrieval_never_fails[of ?e2 ?q, THEN conjunct2, THEN conjunct1, rule_format]
  note c3 = retrieval_never_fails[of ?e3 ?q, THEN conjunct2, THEN conjunct2, THEN conjunct1,
      rule_format]
  note c4 = retrieval_never_fails[of ?e4 ?q, THEN conjunct2, THEN conjunct2, THEN conjunct2,
      THEN conjunct1, rule_format]
  note c5 = retrieval_never_fails[of ?e5 ?q, THEN conjunct2, THEN conjunct2, THEN conjunct2,
      THEN conjunct2, THEN conjunct1, rule_format]
  note c7 = retrieval_never_fails[of ?e1 ?q, THEN conjunct2, THEN conjunct2,
      THEN conjunct2, THEN conjunct2, THEN conjunct2, THEN conjunct2, rule_format]
  have "embedQuery ?e1 ?q = Inl (JsError None (js ''down''))" by simp
  then have "fst (retrieve ?e1 ?q) = CONTEXT_ERROR" by (rule c1)
  then show "fst (retrieve ?e1 ?q) = js ''Error retrieving context from knowledge base.''"
    by (simp only: CONTEXT_ERROR_def)
  have "embedQuery ?e2 ?q = Inr [1, 0] \<and> index_query ?e2 [1, 0] = Inl (JsError None (js ''down''))"
    by (simp add: demo_env_def)
  then have "fst (retrieve ?e2 ?q) = CONTEXT_ERROR" by (rule c2)
  then show "fst (retrieve ?e2 ?q) = js ''Error retrieving context from knowledge base.''"
    by (simp only: CONTEXT_ERROR_def)
  have "embedQuery ?e3 ?q = Inr [1, 0] \<and> index_query ?e3 [1, 0] = Inr \<lparr>matches = Some []\<rparr>
        \<and> (matches \<lparr>matches = Some []\<rparr> = None \<or> matches \<lparr>matches = Some []\<rparr> = Some [])"
    by (simp add: demo_env_def)
  then have "fst (retrieve ?e3 ?q) = NO_CONTEXT" by (rule c3)
  then show "fst (retrieve ?e3 ?q) = js ''No relevant context found.''"
    by (simp only: NO_CONTEXT_def)
  have "embedQuery ?e4 ?q = Inr [1, 0] \<and> index_query ?e4 [1, 0] = Inr \<lparr>matches = Some ?m4\<rparr>
        \<and> matches \<lparr>matches = Some ?m4\<rparr> = Some ?m4 \<and> filter ?P ?m4 = []"
    by (simp add: demo_env_def)
  then have "fst (retrieve ?e4 ?q) = NO_CONTEXT" by (rule c4)
  then show "fst (retrieve ?e4 ?q) = js ''No relevant context found.''"
    by (simp only: NO_CONTEXT_def)
  have f: "filter ?P mixed_matches
             = [\<lparr>match_text = Some (js ''low''), score = 1\<rparr>,
                \<lparr>match_text = Some (js ''high''), score = 5\<rparr>]"
    by (simp add: mixed_matches_def js_def)
  have ne: "filter ?P mixed_matches \<noteq> []" unfolding f by simp
  have "embedQuery ?e5 ?q = Inr [1, 0]
        \<and> index_query ?e5 [1, 0] = Inr \<lparr>matches = Some mixed_matches\<rparr>
        \<and> matches \<lparr>matches = Some mixed_matches\<rparr> = Some mixed_matches"
    by (simp add: demo_env_def)
  with ne have "embedQuery ?e5 ?q = Inr [1, 0]
        \<and> index_query ?e5 [1, 0] = Inr \<lparr>matches = Some mixed_matches\<rparr>
        \<and> matches \<lparr>matches = Some mixed_matches\<rparr> = Some mixed_matches
        \<and> filter ?P mixed_matches \<noteq> []"
    by (intro conjI) (erule conjunct1, erule conjunct2[THEN conjunct1],
        erule conjunct2[THEN conjunct2], assumption)
  then have "fst (retrieve ?e5 ?q)
          = join SEPARATOR (map (the \<circ> match_text) (filter ?P mixed_matches))"
    by (rule c5)
  also have "\<dots> = js ''low'' @ [10, 10] @ js ''---'' @ [10, 10] @ js ''high''"
    unfolding f by (simp add: SEPARATOR_def NL_def)
  finally show "fst (retrieve ?e5 ?q)
     = js ''low'' @ [10, 10] @ js ''---'' @ [10, 10] @ js ''high''" .
  have "reaches_transcription ?e1 demo_request \<lparr>question = None\<rparr> (js ''/tmp/upload_1'')
        \<and> transcriptions_create ?e1 (js ''/tmp/upload_1'') = Inr ?q
        \<and> or_else (question \<lparr>question = None\<rparr>) ?q = ?q \<and> ?q \<noteq> []"
    by (simp add: reaches_transcription_def demo_env_def demo_request_def missing_def js_def
          or_else_def)
  from c7[OF this, of demo_world]
  have "fst (askHandler ?e1 demo_request demo_world) = generate ?e1 ?q ?q (fst (retrieve ?e1 ?q))"
    by (rule conjunct1)
  also have "\<dots> = json_response 200
         [(''answer'', JStr (answer (parse_response (js ''<scratchpad>think</scratchpad>###  final '')))),
          (''scratchpad'', JStr (scratchpad (parse_response (js ''<scratchpad>think</scratchpad>###  final '')))),
          (''transcription'', JStr ?q)]"
    by (simp add: generate_def demo_env_def js_def Let_def)
  finally show "fst (askHandler ?e1 demo_request demo_world)
     = json_response 200
         [(''answer'', JStr (js ''final'')),
          (''scratchpad'', JStr (js ''<scratchpad>think</scratchpad>'')),
          (''transcription'', JStr (js ''What is NPV?''))]"
    by (simp add: parse_response_example)
qed

text \<open>
  Counterexample to C2 as stated: the index answers with the match \<^verbatim>\<open>low\<close> (score 1) before
  the match \<^verbatim>\<open>high\<close> (score 5). The context is \<^verbatim>\<open>low\<close>, the separator, \<^verbatim>\<open>high\<close>: the order of
  the answer, not the descending order of score, in which \<^verbatim>\<open>high\<close> comes first.
\<close>

theorem retrieval_order_counterexample:
  "fst (retrieve (demo_env\<lparr>index_query := (\<lambda>v. Inr \<lparr>matches = Some ascending_matches\<rparr>)\<rparr>)
          (js ''What is NPV?''))
     = js ''low'' @ [10, 10] @ js ''---'' @ [10, 10] @ js ''high''
   \<and> map (the \<circ> match_text) (by_descending_score ascending_matches) = [js ''high'', js ''low'']
   \<and> fst (retrieve (demo_env\<lparr>index_query := (\<lambda>v. Inr \<lparr>matches = Some ascending_matches\<rparr>)\<rparr>)
          (js ''What is NPV?''))
     \<noteq> join SEPARATOR (map (the \<circ> match_text) (by_descending_score ascending_matches))"
proof -
  let ?env = "demo_env\<lparr>index_query := (\<lambda>v. Inr \<lparr>matches = Some ascending_matches\<rparr>)\<rparr>"
  have t: "truthy_texts ascending_matches = [js ''low'', js ''high'']"
    by (simp add: truthy_texts_def ascending_matches_def js_def)
  have "fst (retrieve ?env (js ''What is NPV?'')) = join SEPARATOR [js ''low'', js ''high'']"
    by (simp add: retrieve_def demo_env_def format_context_cases t)
  then have r: "fst (retrieve ?env (js ''What is NPV?''))
      = js ''low'' @ [10, 10] @ js ''---'' @ [10, 10] @ js ''high''"
    by (simp add: SEPARATOR_def NL_def)
  have s: "map (the \<circ> match_text) (by_descending_score ascending_matches) = [js ''high'', js ''low'']"
    by (simp add: by_descending_score_def ascending_matches_def)
  have "js ''low'' @ [10, 10] @ js ''---'' @ [10, 10] @ js ''high''
          \<noteq> join SEPARATOR [js ''high'', js ''low'']"
    by (simp add: SEPARATOR_def NL_def js_def)
  with r s show ?thesis by simp
qed

text \<open>
  Claim C9, as amended. The handler takes the query from audio only. Every request
  without an audio file gets an error response (status 400, 405 or 500) and no stage
  runs: the world is unchanged. On a \<^verbatim>\<open>POST\<close> that multer processed without error this is
  status 400 with \<^verbatim>\<open>No audio file uploaded.\<close> when \<^verbatim>\<open>req.body\<close> is defined, whether or not it
  holds a question, and status 500 with \<^verbatim>\<open>Failed to process the request.\<close> when \<^verbatim>\<open>req.body\<close>
  is undefined, since the question is read before the guard. With an audio file and a
  missing API key the answer is status 500 and no stage runs; with all keys set the
  transcription is always called first, and a non-empty question then replaces the
  transcription as the query text of retrieval and generation.
\<close>

theorem audio_is_required:
  "(audioFile req = None \<longrightarrow>
      snd (askHandler env req w) = w
      \<and> status (fst (askHandler env req w)) \<in> {400, 405, 500})
   \<and> (req_method req = js ''POST'' \<and> upload_error req = None \<and> audioFile req = None \<longrightarrow>
        (req_body req \<noteq> None \<longrightarrow>
           fst (askHandler env req w) =
             json_response 400 [(''error'', JStr (js ''No audio file uploaded.''))])
        \<and> (req_body req = None \<longrightarrow>
             status (fst (askHandler env req w)) = 500
             \<and> field (fst (askHandler env req w)) ''error''
                 = Some (JStr (js ''Failed to process the request.''))))
   \<and> (req_method req = js ''POST'' \<and> upload_error req = None \<and> req_body req \<noteq> None
        \<and> audioFile req \<noteq> None
        \<and> (missing (PINECONE_API_KEY env) \<or> missing (PINECONE_ENVIRONMENT env)
             \<or> missing (OPENAI_API_KEY env)) \<longrightarrow>
        askHandler env req w =
          (json_response 500
             [(''error'', JStr (js ''Server configuration error: Missing API keys.''))], w))
   \<and> (\<forall>form p. reaches_transcription env req form p \<longrightarrow>
          (\<exists>rest. calls (snd (askHandler env req w)) = calls w @ Transcribe p # rest))
   \<and> (\<forall>form p t q. reaches_transcription env req form p
          \<and> transcriptions_create env p = Inr t \<and> or_else (question form) t = q \<and> q \<noteq> [] \<longrightarrow>
          calls (snd (askHandler env req w)) =
            calls w @ [Transcribe p] @ snd (retrieve env q)
            @ [ChatCompletion (systemPrompt (fst (retrieve env q))) q])"
proof (intro conjI allI impI)
  assume n: "audioFile req = None"
  have c: "snd (ask_catch None e w) = w
           \<and> status (fst (ask_catch None e w)) \<in> {400, 405, 500}" for e
    by (simp add: ask_catch_def unlink_if_exists_def json_response_def)
  from n c show "snd (askHandler env req w) = w"
    by (simp add: askHandler_def method_not_allowed_def split: option.splits)
  from n c show "status (fst (askHandler env req w)) \<in> {400, 405, 500}"
    by (simp add: askHandler_def method_not_allowed_def json_response_def split: option.splits)
next
  assume a: "req_method req = js ''POST'' \<and> upload_error req = None \<and> audioFile req = None"
    and "req_body req \<noteq> None"
  then obtain form where "req_body req = Some form" by auto
  with a show "fst (askHandler env req w) =
             json_response 400 [(''error'', JStr (js ''No audio file uploaded.''))]"
    by (simp add: askHandler_no_audio)
next
  assume a: "req_method req = js ''POST'' \<and> upload_error req = None \<and> audioFile req = None"
    and b: "req_body req = None"
  from a b show "status (fst (askHandler env req w)) = 500"
    by (simp add: askHandler_def ask_catch_def json_response_def)
  from a b show "field (fst (askHandler env req w)) ''error''
                 = Some (JStr (js ''Failed to process the request.''))"
    by (simp add: askHandler_def ask_catch_def json_response_def field_def)
next
  assume "req_method req = js ''POST'' \<and> upload_error req = None \<and> req_body req \<noteq> None
        \<and> audioFile req \<noteq> None
        \<and> (missing (PINECONE_API_KEY env) \<or> missing (PINECONE_ENVIRONMENT env)
             \<or> missing (OPENAI_API_KEY env))"
  then show "askHandler env req w =
          (json_response 500
             [(''error'', JStr (js ''Server configuration error: Missing API keys.''))], w)"
    by (auto simp: askHandler_def)
next
  fix form p assume r: "reaches_transcription env req form p"
  show "\<exists>rest. calls (snd (askHandler env req w)) = calls w @ Transcribe p # rest"
  proof (cases "transcriptions_create env p")
    case (Inl e)
    with r show ?thesis by (simp add: askHandler_transcription_error called_def)
  next
    case (Inr t)
    show ?thesis
    proof (cases "or_else (question form) t = []")
      case True
      with r Inr show ?thesis
        by (simp add: askHandler_def reaches_transcription_def called_def unlink_if_exists_def
              Let_def)
    next
      case False
      with askHandler_query[OF r Inr refl False, of w] show ?thesis by simp
    qed
  qed
next
  fix form p t q
  assume "reaches_transcription env req form p
            \<and> transcriptions_create env p = Inr t \<and> or_else (question form) t = q \<and> q \<noteq> []"
  then show "calls (snd (askHandler env req w)) =
              calls w @ [Transcribe p] @ snd (retrieve env q)
              @ [ChatCompletion (systemPrompt (fst (retrieve env q))) q]"
    using askHandler_query[of env req form p t q w] by simp
qed

text \<open>
  Witness for C9: a question without audio is rejected with status 400 in a multipart
  request and with status 500 when \<^verbatim>\<open>req.body\<close> is undefined; audio with a missing key is
  answered with status 500; with audio and all keys, the question \<^verbatim>\<open>What is IRR?\<close> replaces
  the transcription \<^verbatim>\<open>What is NPV?\<close> as the query.
\<close>

theorem audio_is_required_witness:
  "askHandler demo_env text_only_request demo_world =
     (json_response 400 [(''error'', JStr (js ''No audio file uploaded.''))], demo_world)
   \<and> status (fst (askHandler demo_env (text_only_request\<lparr>req_body := None\<rparr>) demo_world)) = 500
   \<and> snd (askHandler demo_env (text_only_request\<lparr>req_body := None\<rparr>) demo_world) = demo_world
   \<and> askHandler (demo_env\<lparr>OPENAI_API_KEY := None\<rparr>) demo_request demo_world =
       (json_response 500
          [(''error'', JStr (js ''Server configuration error: Missing API keys.''))], demo_world)
   \<and> calls (snd (askHandler demo_env
        (demo_request\<lparr>req_body := Some \<lparr>question = Some (js ''What is IRR?'')\<rparr>\<rparr>) demo_world)) =
       [Transcribe (js ''/tmp/upload_1''), EmbedQuery (js ''What is IRR?''), IndexQuery [1, 0],
        ChatCompletion (systemPrompt (fst (retrieve demo_env (js ''What is IRR?'')))) (js ''What is IRR?'')]"
proof (intro conjI)
  let ?r0 = "text_only_request\<lparr>req_body := None\<rparr>"
  have n: "audioFile text_only_request = None" by (simp add: text_only_request_def)
  have a: "req_method text_only_request = js ''POST'' \<and> upload_error text_only_request = None
           \<and> audioFile text_only_request = None"
    by (simp add: text_only_request_def)
  have b: "req_body text_only_request \<noteq> None" by (simp add: text_only_request_def)
  note t = audio_is_required[of text_only_request demo_env demo_world]
  from t[THEN conjunct1, rule_format, OF n]
  have "snd (askHandler demo_env text_only_request demo_world) = demo_world"
    by (rule conjunct1)
  moreover from t[THEN conjunct2, THEN conjunct1, rule_format, OF a, THEN conjunct1, rule_format, OF b]
  have "fst (askHandler demo_env text_only_request demo_world) =
          json_response 400 [(''error'', JStr (js ''No audio file uploaded.''))]" .
  ultimately show "askHandler demo_env text_only_request demo_world =
     (json_response 400 [(''error'', JStr (js ''No audio file uploaded.''))], demo_world)"
    by (simp add: prod_eq_iff)
  have a0: "req_method ?r0 = js ''POST'' \<and> upload_error ?r0 = None \<and> audioFile ?r0 = None"
    by (simp add: text_only_request_def)
  have b0: "req_body ?r0 = None" by simp
  note t0 = audio_is_required[of ?r0 demo_env demo_world]
  from t0[THEN conjunct2, THEN conjunct1, rule_format, OF a0, THEN conjunct2, rule_format, OF b0]
  show "status (fst (askHandler demo_env ?r0 demo_world)) = 500" by (rule conjunct1)
  have "audioFile ?r0 = None" by (simp add: text_only_request_def)
  from t0[THEN conjunct1, rule_format, OF this]
  show "snd (askHandler demo_env ?r0 demo_world) = demo_world" by (rule conjunct1)
  let ?e = "demo_env\<lparr>OPENAI_API_KEY := None\<rparr>"
  have k: "req_method demo_request = js ''POST'' \<and> upload_error demo_request = None
        \<and> req_body demo_request \<noteq> None \<and> audioFile demo_request \<noteq> None
        \<and> (missing (PINECONE_API_KEY ?e) \<or> missing (PINECONE_ENVIRONMENT ?e)
             \<or> missing (OPENAI_API_KEY ?e))"
    by (simp add: demo_request_def missing_def)
  from audio_is_required[of demo_request ?e demo_world, THEN conjunct2, THEN conjunct2,
      THEN conjunct1, rule_format, OF k]
  show "askHandler ?e demo_request demo_world =
       (json_response 500
          [(''error'', JStr (js ''Server configuration error: Missing API keys.''))], demo_world)" .
  let ?req = "demo_request\<lparr>req_body := Some \<lparr>question = Some (js ''What is IRR?'')\<rparr>\<rparr>"
  let ?q = "js ''What is IRR?''"
  have r: "reaches_transcription demo_env ?req \<lparr>question = Some ?q\<rparr> (js ''/tmp/upload_1'')
      \<and> transcriptions_create demo_env (js ''/tmp/upload_1'') = Inr (js ''What is NPV?'')
      \<and> or_else (question \<lparr>question = Some ?q\<rparr>) (js ''What is NPV?'') = ?q \<and> ?q \<noteq> []"
    by (simp add: reaches_transcription_def demo_env_def demo_request_def missing_def js_def
          or_else_def)
  have c: "snd (retrieve demo_env ?q) = [EmbedQuery ?q, IndexQuery [1, 0]]"
    by (simp add: retrieve_def demo_env_def)
  from audio_is_required[of ?req demo_env demo_world, THEN conjunct2, THEN conjunct2,
      THEN conjunct2, THEN conjunct2, rule_format, OF r] c
  show "calls (snd (askHandler demo_env ?req demo_world)) =
       [Transcribe (js ''/tmp/upload_1''), EmbedQuery ?q, IndexQuery [1, 0],
        ChatCompletion (systemPrompt (fst (retrieve demo_env ?q))) ?q]"
    by (simp add: demo_world_def)
qed

text \<open>
  Counterexample to C9 as stated: a request with the question \<^verbatim>\<open>What is NPV?\<close> and no audio
  is rejected with status 400; the world is unchanged, so neither retrieval nor
  generation was called.
\<close>

theorem text_question_counterexample:
  "audioFile text_only_request = None
   \<and> req_body text_only_request = Some \<lparr>question = Some (js ''What is NPV?'')\<rparr>
   \<and> askHandler demo_env text_only_request demo_world =
       (json_response 400 [(''error'', JStr (js ''No audio file uploaded.''))], demo_world)"
  by (simp add: text_only_request_def askHandler_def)

text \<open>
  Claim C10 fails on the code. The request reaches the transcription with its temporary
  audio file on disk, the transcription call raises, and the handler returns status 500
  from inside the inner \<^verbatim>\<open>catch\<close>: the file is still on disk afterwards. The same holds
  for the return on missing API keys.
\<close>

theorem transcription_failure_leaves_audio_file:
  "js ''/tmp/upload_1'' \<in> files demo_world
   \<and> audioFile demo_request = Some (js ''/tmp/upload_1'')
   \<and> askHandler transcription_fails_env demo_request demo_world =
       (json_response 500
          [(''error'', JStr (js ''Failed to transcribe audio.'')),
           (''details'', JStr (js ''bad audio''))],
        called (Transcribe (js ''/tmp/upload_1'')) demo_world)
   \<and> js ''/tmp/upload_1'' \<in> files (snd (askHandler transcription_fails_env demo_request demo_world))"
proof -
  have "transcriptions_create transcription_fails_env (js ''/tmp/upload_1'')
          = Inl (JsError None (js ''bad audio''))"
    by (simp add: transcription_fails_env_def)
  from askHandler_transcription_error[OF demo_reaches(3) this, of demo_world]
  show ?thesis
    by (simp add: demo_world_def demo_request_def called_def)
qed

lemma missing_keys_leave_audio_file:
  "askHandler (demo_env\<lparr>OPENAI_API_KEY := None\<rparr>) demo_request demo_world =
     (json_response 500
        [(''error'', JStr (js ''Server configuration error: Missing API keys.''))], demo_world)"
  by (simp add: askHandler_def demo_request_def demo_env_def missing_def)

lemma success_removes_audio_file:
  "files (snd (askHandler demo_env demo_request demo_world)) = {}"
proof -
  have "transcriptions_create demo_env (js ''/tmp/upload_1'') = Inr (js ''What is NPV?'')"
    by (simp add: demo_env_def)
  moreover have "or_else (question \<lparr>question = None\<rparr>) (js ''What is NPV?'') = js ''What is NPV?''"
    "js ''What is NPV?'' \<noteq> []"
    by (simp_all add: or_else_def js_def)
  ultimately show ?thesis
    using askHandler_query[OF demo_reaches(1), of "js ''What is NPV?''" "js ''What is NPV?''" demo_world]
    by (simp add: unlink_if_exists_def called_def demo_world_def js_def)
qed

text \<open>
  The speech handler, by contrast, leaves no file behind on any path: its temporary file
  is unlinked after the response was sent and in both \<^verbatim>\<open>catch\<close> blocks.
\<close>

lemma unlink_if_exists_files:
  "files (unlink_if_exists p w) \<subseteq> files w"
  "f \<noteq> [] \<Longrightarrow> f \<notin> files (unlink_if_exists (Some f) w)"
  by (auto simp: unlink_if_exists_def split: option.splits)

lemma ttsHandler_leaves_no_file:
  "files (snd (ttsHandler env req w)) \<subseteq> files w"
proof -
  have "files (snd (synthesize env t w)) \<subseteq> files w" for t
    by (auto simp: synthesize_def tts_inner_catch_def unlink_if_exists_def Let_def js_def
             split: sum.splits option.splits)
  then show ?thesis
    using unlink_if_exists_files(1)
    by (auto simp: ttsHandler_def tts_catch_def split: option.splits json.splits)
qed

section \<open>Properties of the ingestion handler\<close>

lemma embed_chunks_calls:
  "c \<in> set (snd (embed_chunks env fileName i chunks vectors)) \<Longrightarrow> \<exists>t. c = EmbedQuery t"
proof (induction chunks arbitrary: i vectors)
  case Nil
  then show ?case by simp
next
  case (Cons chunk rest)
  show ?case
  proof (cases "embedQuery env (pageContent chunk)")
    case (Inl e)
    with Cons.prems show ?thesis by simp
  next
    case (Inr embedding)
    obtain r cs where rc: "embed_chunks env fileName (i + 1) rest
                      (vectors @ [vector_of fileName i chunk embedding]) = (r, cs)"
      by (cases "embed_chunks env fileName (i + 1) rest
                      (vectors @ [vector_of fileName i chunk embedding])") auto
    with Inr Cons.prems have "c = EmbedQuery (pageContent chunk) \<or> c \<in> set cs" by simp
    moreover from rc have "cs = snd (embed_chunks env fileName (i + 1) rest
                      (vectors @ [vector_of fileName i chunk embedding]))" by simp
    ultimately show ?thesis using Cons.IH by blast
  qed
qed

lemma embed_chunks_fails:
  assumes "\<exists>c\<in>set chunks. isl (embedQuery env (pageContent c))"
  shows "\<exists>c\<in>set chunks. \<exists>e. embedQuery env (pageContent c) = Inl e
           \<and> fst (embed_chunks env fileName i chunks vectors) = Inl e"
  using assms
proof (induction chunks arbitrary: i vectors)
  case Nil
  then show ?case by simp
next
  case (Cons chunk rest)
  show ?case
  proof (cases "embedQuery env (pageContent chunk)")
    case (Inl e)
    then show ?thesis by auto
  next
    case (Inr embedding)
    with Cons.prems have "\<exists>c\<in>set rest. isl (embedQuery env (pageContent c))" by auto
    from Cons.IH[OF this, of "i + 1" "vectors @ [vector_of fileName i chunk embedding]"]
    show ?thesis using Inr by (auto split: prod.splits)
  qed
qed

lemma embed_chunks_ok:
  assumes "\<forall>c\<in>set chunks. \<not> isl (embedQuery env (pageContent c))"
  shows "\<exists>new. fst (embed_chunks env fileName i chunks vectors) = Inr (vectors @ new)
           \<and> map vector_id new = map (\<lambda>k. fileName @ js ''-chunk-'' @ show_nat k) [i..<i + length chunks]
           \<and> map metadata_text new = map pageContent chunks"
  using assms
proof (induction chunks arbitrary: i vectors)
  case Nil
  then show ?case by simp
next
  case (Cons chunk rest)
  then obtain embedding where e: "embedQuery env (pageContent chunk) = Inr embedding"
    by (cases "embedQuery env (pageContent chunk)") auto
  from Cons.prems have "\<forall>c\<in>set rest. \<not> isl (embedQuery env (pageContent c))" by simp
  from Cons.IH[OF this, of "i + 1" "vectors @ [vector_of fileName i chunk embedding]"]
  obtain new where n: "fst (embed_chunks env fileName (i + 1) rest (vectors @ [vector_of fileName i chunk embedding]))
        = Inr ((vectors @ [vector_of fileName i chunk embedding]) @ new)"
    "map vector_id new = map (\<lambda>k. fileName @ js ''-chunk-'' @ show_nat k) [i + 1..<i + 1 + length rest]"
    "map metadata_text new = map pageContent rest"
    by blast
  have u: "[i..<i + length (chunk # rest)] = i # [i + 1..<i + 1 + length rest]"
    by (subst upt_rec) simp
  from e n show ?case unfolding u
    by (intro exI[of _ "vector_of fileName i chunk embedding # new"])
       (simp add: case_prod_beta vector_of_def)
qed

lemma upsert_batches_calls:
  "c \<in> set (snd (snd (upsert_batches env vectors i written))) \<Longrightarrow> \<exists>b. c = Upsert b"
proof (induction env vectors i written rule: upsert_batches.induct)
  case (1 env vectors i written)
  show ?case
  proof (cases "i < length vectors")
    case False
    with "1.prems" show ?thesis by (simp add: upsert_batches.simps)
  next
    case True
    show ?thesis
    proof (cases "index_upsert env written (take batchSize (drop i vectors))")
      case (Some e)
      with True "1.prems" show ?thesis by (simp add: upsert_batches.simps[of env vectors i])
    next
      case None
      with True "1.prems" "1.IH"[OF True refl None] show ?thesis
        by (auto simp: upsert_batches.simps[of env vectors i] Let_def case_prod_beta)
    qed
  qed
qed

lemma upsert_batches_written:
  "\<exists>k. fst (snd (upsert_batches env vectors i written))
         = written @ map (\<lambda>j. take batchSize (drop (i + j * batchSize) vectors)) [0..<k]"
proof (induction env vectors i written rule: upsert_batches.induct)
  case (1 env vectors i written)
  show ?case
  proof (cases "i < length vectors")
    case False
    then show ?thesis by (auto simp: upsert_batches.simps[of env vectors i] intro: exI[of _ 0])
  next
    case True
    show ?thesis
    proof (cases "index_upsert env written (take batchSize (drop i vectors))")
      case (Some e)
      with True show ?thesis
        by (auto simp: upsert_batches.simps[of env vectors i] intro: exI[of _ 0])
    next
      case None
      from "1.IH"[OF True refl None] obtain k where
        k: "fst (snd (upsert_batches env vectors (i + batchSize) (written @ [take batchSize (drop i vectors)])))
          = (written @ [take batchSize (drop i vectors)])
            @ map (\<lambda>j. take batchSize (drop (i + batchSize + j * batchSize) vectors)) [0..<k]"
        by blast
      have "map (\<lambda>j. take batchSize (drop (i + j * batchSize) vectors)) [0..<Suc k]
          = take batchSize (drop i vectors)
            # map (\<lambda>j. take batchSize (drop (i + batchSize + j * batchSize) vectors)) [0..<k]"
        by (simp add: upt_conv_Cons map_Suc_upt[symmetric] add.assoc del: upt_Suc)
      with True None k show ?thesis
        by (intro exI[of _ "Suc k"])
           (simp add: upsert_batches.simps[of env vectors i] Let_def case_prod_beta
                 del: upt_Suc)
    qed
  qed
qed

lemma embed_chunks_exact:
  assumes "\<forall>c\<in>set chunks. \<not> isl (embedQuery env (pageContent c))"
  shows "embed_chunks env fileName i chunks vectors =
           (Inr (vectors @ map (\<lambda>j. vector_of fileName (i + j) (chunks ! j)
                                   (projr (embedQuery env (pageContent (chunks ! j)))))
                             [0..<length chunks]),
            map (\<lambda>c. EmbedQuery (pageContent c)) chunks)"
  using assms
proof (induction chunks arbitrary: i vectors)
  case Nil
  then show ?case by simp
next
  case (Cons chunk rest)
  then obtain embedding where e: "embedQuery env (pageContent chunk) = Inr embedding"
    by (cases "embedQuery env (pageContent chunk)") auto
  from Cons.prems have "\<forall>c\<in>set rest. \<not> isl (embedQuery env (pageContent c))" by simp
  note ih = Cons.IH[OF this, of "i + 1" "vectors @ [vector_of fileName i chunk embedding]"]
  have "map (\<lambda>j. vector_of fileName (i + j) ((chunk # rest) ! j)
                 (projr (embedQuery env (pageContent ((chunk # rest) ! j)))))
          [0..<Suc (length rest)]
        = vector_of fileName i chunk embedding
          # map (\<lambda>j. vector_of fileName (i + 1 + j) (rest ! j)
                       (projr (embedQuery env (pageContent (rest ! j)))))
              [0..<length rest]"
    by (simp only: map_upt_Suc) (simp add: e)
  with e ih show ?case by simp
qed

lemma upsert_batches_first_failure:
  assumes "i + k * batchSize < length vectors"
    and "\<forall>j<k. index_upsert env
                 (written @ map (\<lambda>n. take batchSize (drop (i + n * batchSize) vectors)) [0..<j])
                 (take batchSize (drop (i + j * batchSize) vectors)) = None"
    and "index_upsert env
           (written @ map (\<lambda>n. take batchSize (drop (i + n * batchSize) vectors)) [0..<k])
           (take batchSize (drop (i + k * batchSize) vectors)) = Some e"
  shows "upsert_batches env vectors i written =
           (Some e,
            written @ map (\<lambda>n. take batchSize (drop (i + n * batchSize) vectors)) [0..<k],
            map (\<lambda>n. Upsert (take batchSize (drop (i + n * batchSize) vectors))) [0..<Suc k])"
  using assms
proof (induction k arbitrary: i written)
  case 0
  then show ?case by (simp add: upsert_batches.simps[of env vectors i] Let_def)
next
  case (Suc k)
  define g where "g = (\<lambda>m. take batchSize (drop m vectors))"
  have shift: "map (\<lambda>n. g (i + n * batchSize)) [0..<Suc j]
                 = g i # map (\<lambda>n. g (i + batchSize + n * batchSize)) [0..<j]" for j
    by (simp only: map_upt_Suc) (simp add: ac_simps)
  have shift': "map (\<lambda>n. Upsert (g (i + n * batchSize))) [0..<Suc j]
                 = Upsert (g i) # map (\<lambda>n. Upsert (g (i + batchSize + n * batchSize))) [0..<j]" for j
    by (simp only: map_upt_Suc) (simp add: ac_simps)
  from Suc.prems(1) have lt: "i < length vectors" and lt': "i + batchSize + k * batchSize < length vectors"
    by simp_all
  from Suc.prems(2)[rule_format, of 0] have first: "index_upsert env written (g i) = None"
    by (simp add: g_def)
  have rest: "\<forall>j<k. index_upsert env
                 ((written @ [g i]) @ map (\<lambda>n. g (i + batchSize + n * batchSize)) [0..<j])
                 (g (i + batchSize + j * batchSize)) = None"
  proof (intro allI impI)
    fix j assume "j < k"
    then have "Suc j < Suc k" by simp
    from Suc.prems(2)[rule_format, OF this]
    have "index_upsert env (written @ map (\<lambda>n. g (i + n * batchSize)) [0..<Suc j])
            (g (i + Suc j * batchSize)) = None"
      by (simp only: g_def)
    then show "index_upsert env
                 ((written @ [g i]) @ map (\<lambda>n. g (i + batchSize + n * batchSize)) [0..<j])
                 (g (i + batchSize + j * batchSize)) = None"
      by (simp only: shift) (simp add: ac_simps)
  qed
  from Suc.prems(3)
  have "index_upsert env (written @ map (\<lambda>n. g (i + n * batchSize)) [0..<Suc k])
            (g (i + Suc k * batchSize)) = Some e"
    by (simp only: g_def)
  then have last: "index_upsert env
                 ((written @ [g i]) @ map (\<lambda>n. g (i + batchSize + n * batchSize)) [0..<k])
                 (g (i + batchSize + k * batchSize)) = Some e"
    by (simp only: shift) (simp add: ac_simps)
  from Suc.IH[OF lt', of "written @ [g i]"] rest last
  have "upsert_batches env vectors (i + batchSize) (written @ [g i]) =
           (Some e,
            (written @ [g i]) @ map (\<lambda>n. g (i + batchSize + n * batchSize)) [0..<k],
            map (\<lambda>n. Upsert (g (i + batchSize + n * batchSize))) [0..<Suc k])"
    by (simp only: g_def)
  with lt first
  have "upsert_batches env vectors i written =
           (Some e,
            (written @ [g i]) @ map (\<lambda>n. g (i + batchSize + n * batchSize)) [0..<k],
            Upsert (g i) # map (\<lambda>n. Upsert (g (i + batchSize + n * batchSize))) [0..<Suc k])"
    by (subst upsert_batches.simps) (simp add: g_def Let_def)
  also have "(written @ [g i]) @ map (\<lambda>n. g (i + batchSize + n * batchSize)) [0..<k]
          = written @ map (\<lambda>n. g (i + n * batchSize)) [0..<Suc k]"
    by (simp only: shift) simp
  also have "Upsert (g i) # map (\<lambda>n. Upsert (g (i + batchSize + n * batchSize))) [0..<Suc k]
          = map (\<lambda>n. Upsert (g (i + n * batchSize))) [0..<Suc (Suc k)]"
    by (simp only: shift')
  finally show ?case by (simp only: g_def)
qed

lemma uploadHandler_embedding_failed:
  assumes "reaches_embedding env req file chunks"
    and "fst (embed_chunks env (originalname file) 0 chunks []) = Inl e"
  shows "uploadHandler env req w =
           (json_response 500
              [(''error'', JStr (js ''Failed to generate embeddings.'')),
               (''details'', JStr (message e))],
            w\<lparr>calls := calls w @ LoadPdf (file_path file)
                         # snd (embed_chunks env (originalname file) 0 chunks [])\<rparr>)"
proof -
  from assms(1) obtain docs where
    "loader_load env (file_path file) = Inr docs" "docs \<noteq> []"
    "splitDocuments env docs = Inr chunks"
    by (auto simp: reaches_embedding_def)
  with assms show ?thesis
    by (simp add: reaches_embedding_def uploadHandler_def called_def Let_def case_prod_beta)
qed

lemma uploadHandler_upserted:
  assumes "reaches_embedding env req file chunks"
    and "fst (embed_chunks env (originalname file) 0 chunks []) = Inr vectors"
    and "vectors \<noteq> []"
    and "upsert_batches env vectors 0 (index_batches w) = (failed, written, upsert_calls)"
  shows "uploadHandler env req w =
           (case failed of
              Some pineconeError \<Rightarrow>
                json_response 500
                  [(''error'', JStr (js ''Failed to save embeddings to database.'')),
                   (''details'', JStr (message pineconeError))]
            | None \<Rightarrow> upload_succeeded (originalname file) vectors,
            w\<lparr>index_batches := written,
              calls := calls w @ LoadPdf (file_path file)
                         # snd (embed_chunks env (originalname file) 0 chunks [])
                         @ upsert_calls\<rparr>)"
proof -
  from assms(1) obtain docs where
    "loader_load env (file_path file) = Inr docs" "docs \<noteq> []"
    "splitDocuments env docs = Inr chunks"
    by (auto simp: reaches_embedding_def)
  with assms show ?thesis
    by (cases failed)
       (simp_all add: reaches_embedding_def uploadHandler_def called_def Let_def case_prod_beta)
qed

lemma uploadHandler_no_vectors:
  assumes "reaches_embedding env req file chunks"
    and "fst (embed_chunks env (originalname file) 0 chunks []) = Inr []"
  shows "uploadHandler env req w =
           (upload_succeeded (originalname file) [],
            w\<lparr>calls := calls w @ LoadPdf (file_path file)
                         # snd (embed_chunks env (originalname file) 0 chunks [])\<rparr>)"
proof -
  from assms(1) obtain docs where
    "loader_load env (file_path file) = Inr docs" "docs \<noteq> []"
    "splitDocuments env docs = Inr chunks"
    by (auto simp: reaches_embedding_def)
  with assms show ?thesis
    by (simp add: reaches_embedding_def uploadHandler_def called_def Let_def case_prod_beta)
qed

text \<open>
  Claim C6. When the embedding call fails for some chunk, the handler answers with status
  500 and \<^verbatim>\<open>Failed to generate embeddings.\<close> (the details are the message of a failing
  call), the index holds what it held before, and no upsert was called. In every run the
  upsert calls, if any, come after all embedding calls, and there is an upsert call only
  if the embedding succeeded for every chunk.
\<close>

theorem no_partial_upsert:
  assumes "reaches_embedding env req file chunks"
  shows "((\<exists>c\<in>set chunks. isl (embedQuery env (pageContent c))) \<longrightarrow>
            (\<exists>c\<in>set chunks. \<exists>e. embedQuery env (pageContent c) = Inl e
               \<and> fst (uploadHandler env req w) =
                   json_response 500
                     [(''error'', JStr (js ''Failed to generate embeddings.'')),
                      (''details'', JStr (message e))])
            \<and> index_batches (snd (uploadHandler env req w)) = index_batches w
            \<and> (\<exists>es. calls (snd (uploadHandler env req w)) = calls w @ LoadPdf (file_path file) # es
                     \<and> (\<forall>c\<in>set es. \<exists>t. c = EmbedQuery t)))
       \<and> (\<exists>es us. calls (snd (uploadHandler env req w))
                      = calls w @ LoadPdf (file_path file) # es @ us
              \<and> (\<forall>c\<in>set es. \<exists>t. c = EmbedQuery t)
              \<and> (\<forall>c\<in>set us. \<exists>b. c = Upsert b)
              \<and> (us \<noteq> [] \<longrightarrow> (\<forall>c\<in>set chunks. \<not> isl (embedQuery env (pageContent c)))))"
proof (intro conjI impI)
  let ?E = "embed_chunks env (originalname file) 0 chunks []"
  have es: "\<forall>c\<in>set (snd ?E). \<exists>t. c = EmbedQuery t"
    using embed_chunks_calls by blast
  {
    assume "\<exists>c\<in>set chunks. isl (embedQuery env (pageContent c))"
    from embed_chunks_fails[OF this, of "originalname file" 0 "[]"]
    obtain c e where c: "c \<in> set chunks" "embedQuery env (pageContent c) = Inl e"
      "fst ?E = Inl e" by blast
    note h = uploadHandler_embedding_failed[OF assms c(3), of w]
    from c h show "\<exists>c\<in>set chunks. \<exists>e. embedQuery env (pageContent c) = Inl e
               \<and> fst (uploadHandler env req w) =
                   json_response 500
                     [(''error'', JStr (js ''Failed to generate embeddings.'')),
                      (''details'', JStr (message e))]"
      by auto
    from h show "index_batches (snd (uploadHandler env req w)) = index_batches w" by simp
    from h es show "\<exists>es. calls (snd (uploadHandler env req w)) = calls w @ LoadPdf (file_path file) # es
                     \<and> (\<forall>c\<in>set es. \<exists>t. c = EmbedQuery t)"
      by simp
  }
  show "\<exists>es us. calls (snd (uploadHandler env req w))
                      = calls w @ LoadPdf (file_path file) # es @ us
              \<and> (\<forall>c\<in>set es. \<exists>t. c = EmbedQuery t)
              \<and> (\<forall>c\<in>set us. \<exists>b. c = Upsert b)
              \<and> (us \<noteq> [] \<longrightarrow> (\<forall>c\<in>set chunks. \<not> isl (embedQuery env (pageContent c))))"
  proof (cases "fst ?E")
    case (Inl e)
    from uploadHandler_embedding_failed[OF assms Inl, of w] es show ?thesis
      by (intro exI[of _ "snd ?E"] exI[of _ "[]"]) simp
  next
    case (Inr vectors)
    have ok: "\<forall>c\<in>set chunks. \<not> isl (embedQuery env (pageContent c))"
    proof (rule ccontr)
      assume "\<not> ?thesis"
      then have "\<exists>c\<in>set chunks. isl (embedQuery env (pageContent c))" by simp
      from embed_chunks_fails[OF this, of "originalname file" 0 "[]"] Inr show False by auto
    qed
    show ?thesis
    proof (cases "vectors = []")
      case True
      with uploadHandler_no_vectors[OF assms, of w] Inr es show ?thesis
        by (intro exI[of _ "snd ?E"] exI[of _ "[]"]) simp
    next
      case False
      obtain failed written ucs where
        u: "upsert_batches env vectors 0 (index_batches w) = (failed, written, ucs)"
        by (cases "upsert_batches env vectors 0 (index_batches w)") auto
      then have "ucs = snd (snd (upsert_batches env vectors 0 (index_batches w)))" by simp
      then have us: "\<forall>c\<in>set ucs. \<exists>b. c = Upsert b"
        using upsert_batches_calls by blast
      from uploadHandler_upserted[OF assms Inr False u] es us ok show ?thesis
        by (intro exI[of _ "snd ?E"] exI[of _ ucs]) simp
    qed
  qed
qed

lemma demo_reaches_embedding:
  "reaches_embedding (demo_upload_env chunks accepted) demo_upload_request demo_file chunks"
  by (simp add: reaches_embedding_def demo_upload_env_def demo_upload_request_def missing_def
        js_def as_document_def)

text \<open>Witness for C6: the second of three chunks cannot be embedded.\<close>

theorem no_partial_upsert_witness:
  "fst (uploadHandler
          (demo_upload_env [as_document (js ''good''), as_document (js ''bad''), as_document (js ''more'')] 1)
          demo_upload_request demo_world) =
     json_response 500
       [(''error'', JStr (js ''Failed to generate embeddings.'')),
        (''details'', JStr (js ''rate limit''))]
   \<and> index_batches (snd (uploadHandler
          (demo_upload_env [as_document (js ''good''), as_document (js ''bad''), as_document (js ''more'')] 1)
          demo_upload_request demo_world)) = []"
proof -
  let ?chunks = "[as_document (js ''good''), as_document (js ''bad''), as_document (js ''more'')]"
  let ?env = "demo_upload_env ?chunks 1"
  have bad: "\<exists>c\<in>set ?chunks. isl (embedQuery ?env (pageContent c))"
    by (simp add: demo_upload_env_def as_document_def)
  have only: "\<And>c e. embedQuery ?env (pageContent c) = Inl e \<Longrightarrow> message e = js ''rate limit''"
    by (auto simp: demo_upload_env_def split: if_splits)
  note t = no_partial_upsert[OF demo_reaches_embedding, of ?chunks 1 demo_world, THEN conjunct1,
      rule_format, OF bad]
  from t only have "fst (uploadHandler ?env demo_upload_request demo_world) =
     json_response 500
       [(''error'', JStr (js ''Failed to generate embeddings.'')),
        (''details'', JStr (js ''rate limit''))]"
    by metis
  moreover from t have "index_batches (snd (uploadHandler ?env demo_upload_request demo_world)) = []"
    by (simp add: demo_world_def)
  ultimately show ?thesis ..
qed

text \<open>
  Claim C8, as amended. Let every chunk be embedded, and let batch \<open>k\<close> (the slice of
  \<open>batchSize\<close> vectors from \<open>k * batchSize\<close> on) be the first one the index rejects, the
  batches before it being accepted one after the other. Then the handler answers with
  status 500 and exactly two fields, the message \<^verbatim>\<open>Failed to save embeddings to database.\<close>
  and the message of the failure as details: the payload holds no count and is the same
  whatever \<open>k\<close> is. The \<open>k\<close> batches written before the failure stay in the index, and the
  upsert was called \<open>k + 1\<close> times.
\<close>

theorem upsert_failure_payload:
  fixes env :: upload_env and uploaded :: uploaded_file and chunks :: "document list"
    and vectors batch
  defines "vectors \<equiv> map (\<lambda>j. vector_of (originalname uploaded) j (chunks ! j)
                                (projr (embedQuery env (pageContent (chunks ! j)))))
                          [0..<length chunks]"
    and "batch \<equiv> \<lambda>n. take batchSize (drop (n * batchSize) vectors)"
  assumes reaches: "reaches_embedding env req uploaded chunks"
    and embedded: "\<forall>c\<in>set chunks. \<not> isl (embedQuery env (pageContent c))"
    and within: "k * batchSize < length chunks"
    and accepted: "\<forall>j<k. index_upsert env (index_batches w @ map batch [0..<j]) (batch j) = None"
    and rejected: "index_upsert env (index_batches w @ map batch [0..<k]) (batch k) = Some e"
  shows "fst (uploadHandler env req w) =
           json_response 500
             [(''error'', JStr (js ''Failed to save embeddings to database.'')),
              (''details'', JStr (message e))]
       \<and> index_batches (snd (uploadHandler env req w)) = index_batches w @ map batch [0..<k]
       \<and> calls (snd (uploadHandler env req w)) =
           calls w @ LoadPdf (file_path uploaded) # map (\<lambda>c. EmbedQuery (pageContent c)) chunks
           @ map (\<lambda>n. Upsert (batch n)) [0..<Suc k]"
proof -
  have len: "length vectors = length chunks" by (simp add: vectors_def)
  from embed_chunks_exact[OF embedded, of "originalname uploaded" 0 "[]"]
  have em: "embed_chunks env (originalname uploaded) 0 chunks []
              = (Inr vectors, map (\<lambda>c. EmbedQuery (pageContent c)) chunks)"
    by (simp add: vectors_def)
  from within len have ne: "vectors \<noteq> []" by auto
  have "upsert_batches env vectors 0 (index_batches w) =
           (Some e, index_batches w @ map batch [0..<k], map (\<lambda>n. Upsert (batch n)) [0..<Suc k])"
    using upsert_batches_first_failure[of 0 k vectors env "index_batches w" e]
      within accepted rejected len
    by (simp add: batch_def)
  from uploadHandler_upserted[OF reaches _ ne this] em
  show ?thesis by simp
qed

text \<open>
  Witness for C8: 101 chunks and an index that accepts the first batch of 100 and rejects
  the second (\<open>k = 1\<close>); one chunk and an index that rejects the first batch (\<open>k = 0\<close>).
\<close>

theorem upsert_failure_payload_witness:
  "fst (uploadHandler (demo_upload_env (replicate 101 (as_document (js ''good''))) 1)
          demo_upload_request demo_world) =
     json_response 500
       [(''error'', JStr (js ''Failed to save embeddings to database.'')),
        (''details'', JStr (js ''quota exceeded''))]
   \<and> length (index_batches (snd (uploadHandler
          (demo_upload_env (replicate 101 (as_document (js ''good''))) 1)
          demo_upload_request demo_world))) = 1
   \<and> fst (uploadHandler (demo_upload_env [as_document (js ''good'')] 0)
          demo_upload_request demo_world) =
     json_response 500
       [(''error'', JStr (js ''Failed to save embeddings to database.'')),
        (''details'', JStr (js ''quota exceeded''))]
   \<and> index_batches (snd (uploadHandler (demo_upload_env [as_document (js ''good'')] 0)
        demo_upload_request demo_world)) = []"
proof -
  let ?chunks = "replicate 101 (as_document (js ''good''))"
  let ?env = "demo_upload_env ?chunks 1"
  have ok: "\<forall>c\<in>set ?chunks. \<not> isl (embedQuery ?env (pageContent c))"
    by (simp add: demo_upload_env_def as_document_def js_def)
  have k: "1 * batchSize < length ?chunks" by (simp add: batchSize_def)
  note t = upsert_failure_payload[OF demo_reaches_embedding ok k,
      where w = demo_world and e = "JsError None (js ''quota exceeded'')"]
  have a: "fst (uploadHandler ?env demo_upload_request demo_world) =
     json_response 500
       [(''error'', JStr (js ''Failed to save embeddings to database.'')),
        (''details'', JStr (js ''quota exceeded''))]
    \<and> length (index_batches (snd (uploadHandler ?env demo_upload_request demo_world))) = 1"
    using t by (simp add: demo_upload_env_def demo_world_def)
  let ?chunks0 = "[as_document (js ''good'')]"
  let ?env0 = "demo_upload_env ?chunks0 0"
  have ok0: "\<forall>c\<in>set ?chunks0. \<not> isl (embedQuery ?env0 (pageContent c))"
    by (simp add: demo_upload_env_def as_document_def js_def)
  have k0: "0 * batchSize < length ?chunks0" by simp
  note t0 = upsert_failure_payload[OF demo_reaches_embedding ok0 k0,
      where w = demo_world and e = "JsError None (js ''quota exceeded'')"]
  have b: "fst (uploadHandler ?env0 demo_upload_request demo_world) =
     json_response 500
       [(''error'', JStr (js ''Failed to save embeddings to database.'')),
        (''details'', JStr (js ''quota exceeded''))]
    \<and> index_batches (snd (uploadHandler ?env0 demo_upload_request demo_world)) = []"
    using t0 by (simp add: demo_upload_env_def demo_world_def)
  from a b show ?thesis by simp
qed

lemma upsert_second_batch_fails:
  assumes "batchSize < length vectors"
    and "index_upsert env written (take batchSize vectors) = None"
    and "index_upsert env (written @ [take batchSize vectors])
           (take batchSize (drop batchSize vectors)) = Some e"
  shows "upsert_batches env vectors 0 written =
           (Some e, written @ [take batchSize vectors],
            [Upsert (take batchSize vectors), Upsert (take batchSize (drop batchSize vectors))])"
proof -
  have "upsert_batches env vectors batchSize (written @ [take batchSize vectors]) =
          (Some e, written @ [take batchSize vectors],
           [Upsert (take batchSize (drop batchSize vectors))])"
    using assms by (simp add: upsert_batches.simps[of env vectors batchSize] Let_def)
  with assms show ?thesis
    by (auto simp: upsert_batches.simps[of env vectors 0] Let_def)
qed

text \<open>
  Counterexample to C8 as stated: 101 chunks, an index that accepts the first batch of 100
  and rejects the second. One batch was written before the failure, and the payload holds
  the error and its details only, no count.
\<close>

theorem upsert_failure_counterexample:
  "length (index_batches (snd (uploadHandler
       (demo_upload_env (replicate 101 (as_document (js ''good''))) 1)
       demo_upload_request demo_world))) = 1
   \<and> resp_body (fst (uploadHandler
       (demo_upload_env (replicate 101 (as_document (js ''good''))) 1)
       demo_upload_request demo_world)) =
       Json [(''error'', JStr (js ''Failed to save embeddings to database.'')),
             (''details'', JStr (js ''quota exceeded''))]"
proof -
  let ?chunks = "replicate 101 (as_document (js ''good''))"
  let ?env = "demo_upload_env ?chunks 1"
  have "\<forall>c\<in>set ?chunks. \<not> isl (embedQuery ?env (pageContent c))"
    by (simp add: demo_upload_env_def as_document_def js_def)
  from embed_chunks_ok[OF this, of "originalname demo_file" 0 "[]"]
  obtain vectors where v: "fst (embed_chunks ?env (originalname demo_file) 0 ?chunks []) = Inr vectors"
    and "map vector_id vectors
           = map (\<lambda>k. originalname demo_file @ js ''-chunk-'' @ show_nat k) [0..<0 + length ?chunks]"
    by auto
  then have "length (map vector_id vectors) = 101" by simp
  then have len: "length vectors = 101" by simp
  then have ne: "vectors \<noteq> []" by auto
  have u: "upsert_batches ?env vectors 0 (index_batches demo_world) =
           (Some (JsError None (js ''quota exceeded'')),
            index_batches demo_world @ [take batchSize vectors],
            [Upsert (take batchSize vectors), Upsert (take batchSize (drop batchSize vectors))])"
    by (rule upsert_second_batch_fails)
       (simp_all add: len batchSize_def demo_upload_env_def demo_world_def)
  from uploadHandler_upserted[OF demo_reaches_embedding v ne u]
  show ?thesis
    by (simp add: demo_world_def json_response_def)
qed

section \<open>Properties of the chunker and of the chunk ids\<close>

lemma windows_single: "length text \<le> chunkSize \<Longrightarrow> windows chunkSize step text = [text]"
  by (simp add: windows.simps)

lemma windows_step:
  "chunkSize < length text \<Longrightarrow> 0 < step \<Longrightarrow>
   windows chunkSize step text = take chunkSize text # windows chunkSize step (drop step text)"
  by (subst windows.simps) simp

lemma windows_length:
  assumes "0 < step" and "step \<le> chunkSize" and "chunkSize - step < length text"
  shows "length (windows chunkSize step text)
           = (length text - (chunkSize - step) + step - 1) div step"
  using assms
proof (induction chunkSize step "text" rule: windows.induct)
  case (1 chunkSize step t)
  define a where "a = length t - (chunkSize - step)"
  from "1.prems" have a: "0 < a" by (simp add: a_def)
  show ?case
  proof (cases "length t \<le> chunkSize")
    case True
    with "1.prems" have "a \<le> step" by (simp add: a_def)
    with a "1.prems"(1) have "(a + step - 1) div step = 1"
      by (intro div_nat_eqI) auto
    with True show ?thesis by (simp add: windows_single a_def)
  next
    case False
    with "1.prems" have s: "step < a" by (simp add: a_def)
    from False "1.prems" have "length (windows chunkSize step (drop step t))
           = (length (drop step t) - (chunkSize - step) + step - 1) div step"
      by (intro "1.IH") auto
    moreover from "1.prems" have "length (drop step t) - (chunkSize - step) = a - step"
      by (simp add: a_def)
    moreover from s have "a - step + step - 1 = a - 1" by arith
    ultimately have ih: "length (windows chunkSize step (drop step t)) = (a - 1) div step"
      by (simp only:)
    from a have e: "a + step - 1 = (a - 1) + step" by arith
    have "(a - 1 + step) div step = (a - 1) div step + 1"
      by (rule div_add_self2) (use "1.prems"(1) in simp)
    with e have d: "(a + step - 1) div step = Suc ((a - 1) div step)"
      by (simp only: Suc_eq_plus1)
    from False "1.prems"(1)
    have "length (windows chunkSize step t) = Suc (length (windows chunkSize step (drop step t)))"
      by (simp add: windows_step)
    with ih d show ?thesis by (simp only: a_def)
  qed
qed

lemma windows_nth:
  assumes "0 < step" and "k < length (windows chunkSize step text)"
  shows "windows chunkSize step text ! k = take chunkSize (drop (k * step) text)"
  using assms
proof (induction chunkSize step "text" arbitrary: k rule: windows.induct)
  case (1 chunkSize step t)
  show ?case
  proof (cases "length t \<le> chunkSize")
    case True
    with "1.prems" show ?thesis by (simp add: windows_single)
  next
    case False
    show ?thesis
    proof (cases k)
      case 0
      with False "1.prems" show ?thesis by (simp add: windows_step)
    next
      case (Suc j)
      with False "1.prems" have "j < length (windows chunkSize step (drop step t))"
        by (simp add: windows_step)
      with False "1.prems" have "windows chunkSize step (drop step t) ! j
          = take chunkSize (drop (j * step) (drop step t))"
        by (intro "1.IH") auto
      with False "1.prems" Suc show ?thesis by (simp add: windows_step add.commute)
    qed
  qed
qed

lemma show_nat_last: "show_nat n \<noteq> [] \<and> last (show_nat n) = of_nat (48 + n mod 10)"
  by (subst show_nat.simps, subst (2) show_nat.simps) auto

lemma show_nat_butlast:
  "butlast (show_nat n) = (if n < 10 then [] else show_nat (n div 10))"
  by (subst show_nat.simps) (simp add: butlast_append)

lemma digit_inj:
  assumes "a < 10" "b < 10" "(of_nat (48 + a) :: code_unit) = of_nat (48 + b)"
  shows "a = b"
proof -
  from assms(3) have "(48 + a) mod 2 ^ LENGTH(16) = (48 + b) mod 2 ^ LENGTH(16)"
    by (metis unat_of_nat)
  with assms(1,2) show ?thesis by simp
qed

lemma show_nat_inj: "show_nat m = show_nat n \<Longrightarrow> m = n"
proof (induction m arbitrary: n rule: show_nat.induct)
  case (1 m)
  from "1.prems" have l: "(of_nat (48 + m mod 10) :: code_unit) = of_nat (48 + n mod 10)"
    using show_nat_last[of m] show_nat_last[of n] by simp
  then have d: "m mod 10 = n mod 10" by (intro digit_inj) auto
  from "1.prems" have b: "butlast (show_nat m) = butlast (show_nat n)" by simp
  show ?case
  proof (cases "m < 10")
    case True
    with b have "n < 10" using show_nat_last[of "n div 10"]
      by (auto simp: show_nat_butlast split: if_splits)
    with True d show ?thesis by simp
  next
    case False
    with b have n: "\<not> n < 10" using show_nat_last[of "m div 10"]
      by (auto simp: show_nat_butlast split: if_splits)
    with False b have "show_nat (m div 10) = show_nat (n div 10)"
      by (simp add: show_nat_butlast)
    with False have "m div 10 = n div 10" by (intro "1.IH") auto
    with d show ?thesis by (metis div_mult_mod_eq)
  qed
qed

lemma chunk_ids_distinct:
  "distinct (map (\<lambda>k. fileName @ js ''-chunk-'' @ show_nat k) [i..<j])"
  by (auto simp: distinct_map inj_on_def dest: show_nat_inj)

lemma embedded_ids:
  assumes "fst (embed_chunks env fileName 0 chunks []) = Inr vectors"
  shows "length vectors = length chunks \<and> distinct (map vector_id vectors)
         \<and> map metadata_text vectors = map pageContent chunks"
proof -
  have "\<forall>c\<in>set chunks. \<not> isl (embedQuery env (pageContent c))"
  proof (rule ccontr)
    assume "\<not> ?thesis"
    then have "\<exists>c\<in>set chunks. isl (embedQuery env (pageContent c))" by simp
    from embed_chunks_fails[OF this, of fileName 0 "[]"] assms show False by auto
  qed
  from embed_chunks_ok[OF this, of fileName 0 "[]"] assms
  have ids: "map vector_id vectors = map (\<lambda>k. fileName @ js ''-chunk-'' @ show_nat k) [0..<length chunks]"
    and texts: "map metadata_text vectors = map pageContent chunks"
    by auto
  from ids have "length (map vector_id vectors) = length chunks" by simp
  moreover from ids have "distinct (map vector_id vectors)" by (simp only: chunk_ids_distinct)
  ultimately show ?thesis using texts by simp
qed

lemma ceiling_nat_div:
  assumes "0 < b" and "0 < a"
  shows "\<lceil>real a / real b\<rceil> = int ((a + b - 1) div b)"
proof (rule ceiling_unique)
  let ?c = "(a + b - 1) div b"
  have "?c * b \<le> a + b - 1" by simp
  with assms have "?c * b < a + b" by arith
  then have "real (?c * b) < real (a + b)" by (simp only: of_nat_less_iff)
  then have "(real ?c - 1) * real b < real a" by (simp add: algebra_simps)
  with assms(1) show "of_int (int ?c) - 1 < real a / real b"
    by (simp add: pos_less_divide_eq)
  from assms(1) have "a + b - 1 < b + ?c * b" by (rule dividend_less_div_times)
  with assms have "a \<le> ?c * b" by arith
  then have "real a \<le> real (?c * b)" by (simp only: of_nat_le_iff)
  with assms(1) show "real a / real b \<le> of_int (int ?c)"
    by (simp add: pos_divide_le_eq)
qed

lemma chunker_valid:
  assumes "0 \<le> chunkOverlap" and "chunkOverlap < chunkSize"
    and "chunkOverlap < int (length text)"
  shows "chunker text chunkSize chunkOverlap
           = Inr (windows (nat chunkSize) (nat (chunkSize - chunkOverlap)) text)"
    and "int (length (windows (nat chunkSize) (nat (chunkSize - chunkOverlap)) text))
           = \<lceil>(real (length text) - real_of_int chunkOverlap)
               / (real_of_int chunkSize - real_of_int chunkOverlap)\<rceil>"
proof -
  let ?step = "nat (chunkSize - chunkOverlap)"
  let ?a = "length text - nat chunkOverlap"
  from assms show "chunker text chunkSize chunkOverlap
           = Inr (windows (nat chunkSize) ?step text)"
    by (auto simp: chunker_def)
  from assms have s: "0 < ?step" "?step \<le> nat chunkSize" "nat chunkSize - ?step = nat chunkOverlap"
    and a: "0 < ?a" by auto
  from s a assms have "nat chunkSize - ?step < length text" by simp
  from windows_length[OF s(1,2) this]
  have "length (windows (nat chunkSize) ?step text) = (?a + ?step - 1) div ?step"
    by (simp only: s(3))
  also have "int \<dots> = \<lceil>real ?a / real ?step\<rceil>"
    using ceiling_nat_div[OF s(1) a] by simp
  also from assms have "real ?a = real (length text) - real_of_int chunkOverlap"
    by simp
  also from assms have "real ?step = real_of_int chunkSize - real_of_int chunkOverlap"
    by simp
  finally show "int (length (windows (nat chunkSize) ?step text))
           = \<lceil>(real (length text) - real_of_int chunkOverlap)
               / (real_of_int chunkSize - real_of_int chunkOverlap)\<rceil>" .
qed

text \<open>
  Claim C7, as amended. For a valid configuration (\<open>0 \<le> overlap < size\<close>) and a text longer
  than the overlap, the chunker yields \<open>\<lceil>(len - overlap) / (size - overlap)\<rceil>\<close> chunks, and
  chunk \<open>k\<close> is the window of length \<open>size\<close> (shorter at the end of the text) that starts at
  \<open>k * (size - overlap)\<close>. A text of 2500 characters with \<open>size = 1000\<close> and
  \<open>overlap = 200\<close> yields 3 chunks. The embedding loop of the handler gives the chunks
  pairwise different ids.
\<close>

theorem chunk_count_and_ids:
  fixes "text" :: jsstring
  assumes "0 \<le> chunkOverlap" and "chunkOverlap < chunkSize"
    and "chunkOverlap < int (length text)"
  shows "\<exists>cs. chunker text chunkSize chunkOverlap = Inr cs
     \<and> int (length cs) = \<lceil>(real (length text) - real_of_int chunkOverlap)
                             / (real_of_int chunkSize - real_of_int chunkOverlap)\<rceil>
     \<and> (\<forall>k<length cs.
           cs ! k = take (nat chunkSize) (drop (k * nat (chunkSize - chunkOverlap)) text))
     \<and> (length text = 2500 \<and> chunkSize = 1000 \<and> chunkOverlap = 200 \<longrightarrow> length cs = 3)
     \<and> (\<forall>env fileName vectors.
           fst (embed_chunks env fileName 0 (map as_document cs) []) = Inr vectors \<longrightarrow>
           length vectors = length cs \<and> distinct (map vector_id vectors)
           \<and> map metadata_text vectors = cs)"
proof -
  let ?cs = "windows (nat chunkSize) (nat (chunkSize - chunkOverlap)) text"
  note v = chunker_valid[OF assms]
  have n: "\<forall>k<length ?cs.
           ?cs ! k = take (nat chunkSize) (drop (k * nat (chunkSize - chunkOverlap)) text)"
    using assms by (simp add: windows_nth)
  have c: "length ?cs = 3" if "length text = 2500 \<and> chunkSize = 1000 \<and> chunkOverlap = 200"
  proof -
    from that v(2) have "int (length ?cs) = \<lceil>(2500 - 200) / (1000 - 200 :: real)\<rceil>" by simp
    also have "\<dots> = 3" by simp
    finally show ?thesis by simp
  qed
  have i: "length vectors = length ?cs \<and> distinct (map vector_id vectors)
           \<and> map metadata_text vectors = ?cs"
    if "fst (embed_chunks env fileName 0 (map as_document ?cs) []) = Inr vectors"
    for env fileName vectors
    using embedded_ids[OF that] by (simp add: as_document_def comp_def)
  from v n c i show ?thesis by blast
qed

text \<open>Witness for C7: a text of 2500 characters, \<open>size = 1000\<close>, \<open>overlap = 200\<close>.\<close>

theorem chunk_count_and_ids_witness:
  "\<exists>cs. chunker (replicate 2500 (120 :: code_unit)) 1000 200 = Inr cs \<and> length cs = 3
        \<and> cs ! 2 = replicate 900 120"
proof -
  have "(0::int) \<le> 200" "(200::int) < 1000"
    "200 < int (length (replicate 2500 (120 :: code_unit)))"
    by simp_all
  from chunk_count_and_ids[OF this] obtain cs where
    cs: "chunker (replicate 2500 (120 :: code_unit)) 1000 200 = Inr cs"
    "\<forall>k<length cs. cs ! k = take (nat 1000) (drop (k * nat (1000 - 200)) (replicate 2500 (120 :: code_unit)))"
    "length (replicate 2500 (120 :: code_unit)) = 2500 \<and> (1000::int) = 1000 \<and> (200::int) = 200
       \<longrightarrow> length cs = 3"
    by blast
  from cs(3) have l: "length cs = 3" by simp
  with cs(2) have "cs ! 2 = replicate 900 120" by simp
  with cs(1) l show ?thesis by blast
qed

text \<open>
  Counterexample to C7 as stated: the chunks of a text of 2500 characters with
  \<open>size = 1000\<close> and \<open>overlap = 200\<close> start at 0, 800 and 1600; they are 3, as the formula
  \<open>\<lceil>(2500 - 200) / (1000 - 200)\<rceil>\<close> says, not 4.
\<close>

theorem chunk_count_counterexample:
  "chunker (replicate 2500 (120 :: code_unit)) 1000 200
     = Inr [replicate 1000 120, replicate 1000 120, replicate 900 120]
   \<and> \<lceil>(2500 - 200) / (1000 - 200 :: real)\<rceil> = 3"
proof
  have "windows 1000 800 (replicate 2500 (120 :: code_unit))
          = [replicate 1000 120, replicate 1000 120, replicate 900 120]"
    by (simp add: windows_step windows_single)
  then show "chunker (replicate 2500 (120 :: code_unit)) 1000 200
     = Inr [replicate 1000 120, replicate 1000 120, replicate 900 120]"
    by (simp add: chunker_def)
  show "\<lceil>(2500 - 200) / (1000 - 200 :: real)\<rceil> = 3"
    by simp
qed

end
